theory Spec2Isabelle
  imports Main "HOL-Library.Sublist" "HOL-Library.AList"
begin

section \<open>Strings as Python has them\<close>

text \<open>
  A Python \<open>str\<close> is modelled as a \<open>string\<close>; a character stands for a code point
  below 256. The helpers below are the Python built-ins that \<open>homu/main.py\<close> calls.
\<close>

definition startswith :: "string \<Rightarrow> string \<Rightarrow> bool" where
  \<comment> \<open>\<open>word.startswith(p)\<close>\<close>
  "startswith p word = (take (length p) word = p)"

fun contains :: "string \<Rightarrow> string \<Rightarrow> bool" where
  \<comment> \<open>\<open>needle in hay\<close> on strings: \<open>needle\<close> occurs as a contiguous substring\<close>
  "contains needle [] = (needle = [])"
| "contains needle (c # cs) = (startswith needle (c # cs) \<or> contains needle cs)"

definition is_space :: "char \<Rightarrow> bool" where
  \<comment> \<open>the characters below 256 that the regular expression class \<open>\s\<close> and
      \<open>str.strip\<close> treat as whitespace: 9 to 13, 28 to 32, 133 and 160\<close>
  "is_space c = (c \<in> set [CHR 0x09, CHR 0x0A, CHR 0x0B, CHR 0x0C, CHR 0x0D,
                           CHR 0x1C, CHR 0x1D, CHR 0x1E, CHR 0x1F, CHR 0x20,
                           CHR 0x85, CHR 0xA0])"

fun words_acc :: "string \<Rightarrow> string \<Rightarrow> string list" where
  "words_acc cur [] = (if cur = [] then [] else [cur])"
| "words_acc cur (c # cs) =
     (if is_space c then (if cur = [] then words_acc [] cs else cur # words_acc [] cs)
      else words_acc (cur @ [c]) cs)"

definition findall_words :: "string \<Rightarrow> string list" where
  \<comment> \<open>\<open>re.findall(r'\S+', body)\<close>: the maximal runs of non-whitespace, left to right\<close>
  "findall_words body = words_acc [] body"

definition is_digit :: "char \<Rightarrow> bool" where
  "is_digit c = (c \<in> set ''0123456789'')"

definition digit_val :: "char \<Rightarrow> nat" where
  "digit_val c = of_char c - 48"

fun int_digits :: "nat \<Rightarrow> string \<Rightarrow> nat option" where
  "int_digits acc [] = Some acc"
| "int_digits acc (c # cs) =
     (if is_digit c then int_digits (10 * acc + digit_val c) cs
      else if c = CHR ''_'' then
        (case cs of
           [] \<Rightarrow> None
         | d # ds \<Rightarrow> if is_digit d then int_digits (10 * acc + digit_val d) ds else None)
      else None)"

definition py_nat :: "string \<Rightarrow> nat option" where
  "py_nat s = (case s of
                 [] \<Rightarrow> None
               | c # cs \<Rightarrow> if is_digit c then int_digits (digit_val c) cs else None)"

definition py_int :: "string \<Rightarrow> int option" where
  \<comment> \<open>\<open>int(s)\<close> for a string without whitespace: an optional sign, then decimal digits,
      single underscores allowed between digits; \<open>None\<close> is \<open>ValueError\<close>\<close>
  "py_int s = (case s of
                 [] \<Rightarrow> None
               | c # cs \<Rightarrow>
                   if c = CHR ''-'' then map_option (\<lambda>n. - int n) (py_nat cs)
                   else if c = CHR ''+'' then map_option int (py_nat cs)
                   else map_option int (py_nat s))"

fun str_nat :: "nat \<Rightarrow> string" where
  "str_nat n = (if n < 10 then [''0123456789'' ! n]
                else str_nat (n div 10) @ [''0123456789'' ! (n mod 10)])"

declare str_nat.simps [simp del]

definition str_int :: "int \<Rightarrow> string" where
  \<comment> \<open>\<open>'{}'.format(n)\<close> for an integer\<close>
  "str_int n = (if n < 0 then CHR ''-'' # str_nat (nat (- n)) else str_nat (nat n))"

fun lstrip :: "string \<Rightarrow> string" where
  "lstrip [] = []"
| "lstrip (c # cs) = (if is_space c then lstrip cs else c # cs)"

definition strip :: "string \<Rightarrow> string" where
  \<comment> \<open>\<open>s.strip()\<close>\<close>
  "strip s = rev (lstrip (rev (lstrip s)))"

section \<open>The PR state\<close>

text \<open>
  \<open>class PullReqState\<close>. \<open>build_res\<close> is the dictionary from builder name to
  \<open>None\<close>, \<open>True\<close> or \<open>False\<close>, kept in insertion order; \<open>mergeable\<close> is
  \<open>None\<close>, \<open>True\<close> or \<open>False\<close>; \<open>try'\<close> is the attribute \<open>try_\<close>; \<open>repo\<close> is the
  name of the repository object the state refers to. The database cursor \<open>db\<close> and
  the platform are shared, so they live in the record \<open>world\<close> below.
\<close>

record PullReqState =
  num :: int
  priority :: int
  rollup :: bool
  title :: string
  body :: string
  head_ref :: string
  base_ref :: string
  assignee :: string
  head_sha :: string
  approved_by :: string
  status :: string
  merge_sha :: string
  build_res :: "(string \<times> bool option) list"
  try' :: bool
  mergeable :: "bool option"
  repo :: string

text \<open>
  The table \<open>state (repo, num, status, merge_sha)\<close> with \<open>UNIQUE (repo, num)\<close>:
  rows in insertion order, \<open>merge_sha\<close> nullable.
\<close>

record db_row =
  row_repo :: string
  row_num :: int
  row_status :: string
  row_merge_sha :: "string option"

text \<open>What the bot sends to the platform, the CI master and its log, in order.\<close>

datatype effect =
    Comment string int string
  | CommitStatus string string string string
  | SetRef string string string
  | CreateRef string string string
  | Merge string string string string
  | StopBuilders "string list"
  | LogInfo string

text \<open>
  Everything the functions share and mutate: the dictionary \<open>states\<close> (repository name
  to PR number to PR state, both in insertion order), the one-cell list
  \<open>buildbot_slots\<close>, the table behind \<open>db\<close>, and the calls sent out so far. A function
  that receives a \<open>state\<close> object takes and returns the pair of that state and the world;
  its caller stores the returned state back under its key.
\<close>

record world =
  states :: "(string \<times> (int \<times> PullReqState) list) list"
  buildbot_slots :: string
  db :: "db_row list"
  effects :: "effect list"

definition emit :: "effect \<Rightarrow> world \<Rightarrow> world" where
  "emit e s = s\<lparr>effects := effects s @ [e]\<rparr>"

definition db_insert_or_replace :: "string \<Rightarrow> int \<Rightarrow> string \<Rightarrow> db_row list \<Rightarrow> db_row list" where
  \<comment> \<open>\<open>INSERT OR REPLACE INTO state (repo, num, status) VALUES (?, ?, ?)\<close>: the row in
      conflict is deleted and the new one, whose \<open>merge_sha\<close> is \<open>NULL\<close>, is inserted\<close>
  "db_insert_or_replace r n st rows =
     filter (\<lambda>x. \<not> (row_repo x = r \<and> row_num x = n)) rows
     @ [\<lparr>row_repo = r, row_num = n, row_status = st, row_merge_sha = None\<rparr>]"

definition db_update_merge_sha :: "string \<Rightarrow> string \<Rightarrow> int \<Rightarrow> db_row list \<Rightarrow> db_row list" where
  \<comment> \<open>\<open>UPDATE state SET merge_sha = ? WHERE repo = ? AND num = ?\<close>\<close>
  "db_update_merge_sha m r n rows =
     map (\<lambda>x. if row_repo x = r \<and> row_num x = n then x\<lparr>row_merge_sha := Some m\<rparr> else x) rows"

definition db_delete :: "string \<Rightarrow> int \<Rightarrow> db_row list \<Rightarrow> db_row list" where
  \<comment> \<open>\<open>DELETE FROM state WHERE repo = ? AND num = ?\<close>\<close>
  "db_delete r n rows = filter (\<lambda>x. \<not> (row_repo x = r \<and> row_num x = n)) rows"

definition set_status :: "string \<Rightarrow> PullReqState \<times> world \<Rightarrow> PullReqState \<times> world" where
  "set_status st = (\<lambda>(state, s).
     (state\<lparr>status := st\<rparr>,
      s\<lparr>db := db_insert_or_replace (repo state) (num state) st (db s)\<rparr>))"

definition add_comment :: "string \<Rightarrow> PullReqState \<times> world \<Rightarrow> PullReqState \<times> world" where
  "add_comment text = (\<lambda>(state, s). (state, emit (Comment (repo state) (num state) text) s))"

definition head_advanced :: "string \<Rightarrow> bool \<Rightarrow> PullReqState \<times> world \<Rightarrow> PullReqState \<times> world" where
  "head_advanced new_sha use_db = (\<lambda>(state, s).
     (let state' = state\<lparr>head_sha := new_sha, approved_by := '''', status := '''',
                          merge_sha := '''', build_res := [], try' := False,
                          mergeable := None\<rparr>
      in if use_db then set_status '''' (state', s) else (state', s)))"

definition get_status :: "PullReqState \<Rightarrow> string" where
  "get_status state =
     (if status state = '''' \<and> approved_by state \<noteq> '''' \<and> mergeable state \<noteq> Some False
      then ''approved'' else status state)"

definition STATUS_TO_PRIORITY :: "(string \<times> int) list" where
  "STATUS_TO_PRIORITY =
     [(''success'', 0), (''pending'', 1), (''approved'', 2), ('''', 3), (''error'', 4),
      (''failure'', 5)]"

definition dict_get :: "('k \<times> 'v) list \<Rightarrow> 'k \<Rightarrow> 'v \<Rightarrow> 'v" where
  \<comment> \<open>\<open>d.get(k, default)\<close>\<close>
  "dict_get d k dflt = (case map_of d k of None \<Rightarrow> dflt | Some v \<Rightarrow> v)"

definition sort_key_pr :: "PullReqState \<Rightarrow> int list" where
  "sort_key_pr state =
     [dict_get STATUS_TO_PRIORITY (get_status state) (- 1),
      (if mergeable state = Some False then 1 else 0),
      (if approved_by state \<noteq> '''' then 0 else 1),
      (if rollup state then 1 else 0),
      - priority state,
      num state]"

fun list_lt :: "int list \<Rightarrow> int list \<Rightarrow> bool" where
  \<comment> \<open>Python's \<open><\<close> on two lists of integers\<close>
  "list_lt [] [] = False"
| "list_lt [] (y # ys) = True"
| "list_lt (x # xs) [] = False"
| "list_lt (x # xs) (y # ys) = (if x = y then list_lt xs ys else x < y)"

definition state_lt :: "PullReqState \<Rightarrow> PullReqState \<Rightarrow> bool" where
  \<comment> \<open>\<open>PullReqState.__lt__\<close>\<close>
  "state_lt a b = list_lt (sort_key_pr a) (sort_key_pr b)"

definition sha_cmp :: "string \<Rightarrow> string \<Rightarrow> bool" where
  "sha_cmp short full = (length short \<ge> 4 \<and> short = take (length short) full)"

section \<open>Configuration and platform\<close>

text \<open>
  One entry of \<open>cfg['repo']\<close>. The keys that the code reads without a test are fields;
  \<open>travis_token\<close> is optional, and \<open>'travis_token' in repo_cfg\<close> is
  \<open>travis_token repo_cfg \<noteq> None\<close>.
\<close>

record repo_cfg =
  reviewers :: "string list"
  master_branch :: string
  tmp_branch :: string
  buildbot_branch :: string
  buildbot_try_branch :: string
  builders :: "string list"
  try_builders :: "string list"
  buildbot_url :: string
  travis_token :: "string option"

text \<open>
  What the hosted platform and the CI master answer. \<open>set_ref_error\<close> and a
  \<open>MergeError\<close> carry the code of the \<open>GitHubError\<close> that the call raises;
  \<open>stopselected_text\<close> is the body of the answer to the stop request of \<open>force\<close>.
  A call that the code does not guard and that is not listed here returns normally.
\<close>

datatype merge_outcome = MergeCommit string | MergeError int

record platform =
  pull_head_sha :: "string \<Rightarrow> int \<Rightarrow> string"
  ref_sha :: "string \<Rightarrow> string \<Rightarrow> string"
  set_ref_error :: "string \<Rightarrow> string \<Rightarrow> int option"
  merge_result :: "string \<Rightarrow> string \<Rightarrow> string \<Rightarrow> string \<Rightarrow> merge_outcome"
  stopselected_text :: string

datatype exn = AssertionError | GitHubError int | KeyError string

datatype 'a result = Returned 'a | Raised exn

section \<open>The command parser\<close>

fun find_after :: "string \<Rightarrow> string \<Rightarrow> string option" where
  \<comment> \<open>the text that follows the first occurrence of \<open>needle\<close>\<close>
  "find_after needle [] = (if needle = [] then Some [] else None)"
| "find_after needle (c # cs) =
     (if startswith needle (c # cs) then Some (drop (length needle) (c # cs))
      else find_after needle cs)"

fun find_before :: "string \<Rightarrow> string \<Rightarrow> string option" where
  \<comment> \<open>the text that precedes the first occurrence of \<open>needle\<close>\<close>
  "find_before needle [] = (if needle = [] then Some [] else None)"
| "find_before needle (c # cs) =
     (if startswith needle (c # cs) then Some []
      else map_option ((#) c) (find_before needle cs))"

definition error_div :: "string \<Rightarrow> string option" where
  \<comment> \<open>group 1 of the search for \<open>(?s)<div class="error">(.*?)</div>\<close> in the text\<close>
  "error_div text =
     (case find_after (''<div class='' @ [CHR 0x22] @ ''error'' @ [CHR 0x22] @ ''>'') text of
        None \<Rightarrow> None
      | Some rest \<Rightarrow> find_before ''</div>'' rest)"

definition buildbot_err :: "string \<Rightarrow> string" where
  "buildbot_err text =
     (if contains ''authzfail'' text then ''Authorization failed''
      else case error_div text of None \<Rightarrow> '''' | Some g \<Rightarrow> strip g)"

text \<open>
  The body of the loop over \<open>enumerate(words)\<close> for one \<open>word\<close>; \<open>rest\<close> is
  \<open>words[i+1:]\<close>, so that \<open>i+1 < len(words)\<close> is \<open>rest \<noteq> []\<close> and \<open>words[i+1]\<close> is
  \<open>hd rest\<close>. The local variable \<open>sha\<close> goes in and out with the state; the first
  component of the result is \<open>found\<close>.
\<close>

definition do_word ::
  "platform \<Rightarrow> string \<Rightarrow> repo_cfg \<Rightarrow> bool \<Rightarrow> string \<Rightarrow> string list \<Rightarrow>
   string \<times> PullReqState \<times> world \<Rightarrow> bool \<times> string \<times> PullReqState \<times> world" where
  "do_word pf username cfg realtime word rest = (\<lambda>(sha, state, w).
     if word = ''r+'' \<or> startswith ''r='' word then
       (let sha' = (if sha = '''' \<and> rest \<noteq> [] then hd rest else sha)
        in if sha_cmp sha' (head_sha state) then
             (True, sha',
              state\<lparr>approved_by := (if startswith ''r='' word then drop 2 word else username)\<rparr>,
              w)
           else if realtime then
             (let msg = (if sha' \<noteq> '''' then ''`'' @ sha' @ ''` is not a valid commit SHA.''
                         else ''No commit SHA found.'')
              in (True, sha',
                  add_comment ('':scream_cat: '' @ msg @ '' Please try again with `''
                               @ take 7 (head_sha state) @ ''`.'') (state, w)))
           else (True, sha', state, w))
     else if word = ''r-'' then (True, sha, state\<lparr>approved_by := ''''\<rparr>, w)
     else if startswith ''p='' word then
       (case py_int (drop 2 word) of
          Some n \<Rightarrow> (True, sha, state\<lparr>priority := n\<rparr>, w)
        | None \<Rightarrow> (True, sha, state, w))
     else if word = ''retry'' \<and> realtime then (True, sha, set_status '''' (state, w))
     else if word \<in> set [''try'', ''try-''] \<and> realtime then
       (True, sha, state\<lparr>try' := (word = ''try''), merge_sha := '''', build_res := []\<rparr>, w)
     else if word \<in> set [''rollup'', ''rollup-''] then
       (True, sha, state\<lparr>rollup := (word = ''rollup'')\<rparr>, w)
     else if word = ''force'' \<and> realtime then
       (let w1 = emit (StopBuilders (builders cfg)) w;
            err = buildbot_err (stopselected_text pf)
        in if err \<noteq> '''' then
             (True, sha,
              add_comment ('':bomb: Buildbot returned an error: `'' @ err @ ''`'') (state, w1))
           else (True, sha, state, w1))
     else (False, sha, state, w))"

fun cmd_loop ::
  "platform \<Rightarrow> string \<Rightarrow> repo_cfg \<Rightarrow> bool \<Rightarrow> string list \<Rightarrow>
   bool \<times> string \<times> PullReqState \<times> world \<Rightarrow> bool \<times> string \<times> PullReqState \<times> world" where
  "cmd_loop pf username cfg realtime [] acc = acc"
| "cmd_loop pf username cfg realtime (word # rest) (state_changed, sha, state, w) =
     (case do_word pf username cfg realtime word rest (sha, state, w) of
        (found, sha', state', w') \<Rightarrow>
          cmd_loop pf username cfg realtime rest
            ((if found then True else state_changed), sha', state', w'))"

definition parse_commands ::
  "platform \<Rightarrow> string \<Rightarrow> string \<Rightarrow> repo_cfg \<Rightarrow> string \<Rightarrow> bool \<Rightarrow> string \<Rightarrow>
   PullReqState \<times> world \<Rightarrow> bool \<times> PullReqState \<times> world" where
  \<comment> \<open>\<open>parse_commands(body, username, repo_cfg, state, my_username, db, realtime=, sha=)\<close>;
      \<open>body'\<close> is the comment's \<open>body\<close>; the result is the returned flag with the
      state and the world as the call leaves them\<close>
  "parse_commands pf body' username cfg my_username realtime sha = (\<lambda>(state, w).
     if username \<notin> set (reviewers cfg) then (False, state, w)
     else if \<not> contains (CHR ''@'' # my_username) body' then (False, state, w)
     else case cmd_loop pf username cfg realtime (findall_words body') (False, sha, state, w) of
            (state_changed, _, state', w') \<Rightarrow> (state_changed, state', w'))"

section \<open>The merge and build driver\<close>

definition none_dict :: "string list \<Rightarrow> (string \<times> bool option) list" where
  \<comment> \<open>\<open>{x: None for x in builders}\<close>\<close>
  "none_dict bs = foldl (\<lambda>d x. AList.update x None d) [] bs"

text \<open>
  \<open>start_build(state, repo, repo_cfgs, buildbot_slots, logger, db)\<close>, with \<open>rname\<close> for
  \<open>repo.name\<close>. The function is given block by block: the merge message, the handler of
  the merge conflict, the \<open>else\<close> block of the merge that succeeded, and the function
  itself, which checks the slot and the head, moves the staging branch and merges.
\<close>

definition merge_msg :: "PullReqState \<Rightarrow> string" where
  "merge_msg state =
     ''Auto merge of #'' @ str_int (num state) @ '' - '' @ head_ref state
     @ '', r='' @ (if try' state then ''<try>'' else approved_by state)
     @ [CHR 0x0A, CHR 0x0A] @ body state"

definition merge_conflict :: "string \<Rightarrow> PullReqState \<times> world \<Rightarrow> PullReqState \<times> world" where
  \<comment> \<open>the handler of the \<open>GitHubError\<close> with code 409, up to its \<open>return False\<close>\<close>
  "merge_conflict rname = (\<lambda>(state, w).
     (let desc = ''Merge conflict'';
          w1 = emit (CommitStatus rname (head_sha state) ''error'' desc) w
      in add_comment ('':umbrella: '' @ desc) (set_status ''error'' (state, w1))))"

definition merge_done ::
  "platform \<Rightarrow> repo_cfg \<Rightarrow> string \<Rightarrow> string \<Rightarrow> PullReqState \<times> world \<Rightarrow>
   bool result \<times> PullReqState \<times> world" where
  \<comment> \<open>the \<open>else\<close> block of the merge, for the merge commit \<open>merge_commit_sha\<close>, and the
      final \<open>return True\<close>\<close>
  "merge_done pf cfg rname merge_commit_sha = (\<lambda>(state, w).
     (let branch = (if travis_token cfg \<noteq> None then buildbot_branch cfg
                    else if try' state then buildbot_try_branch cfg
                    else buildbot_branch cfg);
          builders' = (if travis_token cfg \<noteq> None then [''travis'']
                       else if try' state then try_builders cfg
                       else builders cfg)
      in case set_ref_error pf rname (''heads/'' @ branch) of
        Some code \<Rightarrow> (Raised (GitHubError code), state, w)
      | None \<Rightarrow>
        (let w1 = emit (SetRef rname (''heads/'' @ branch) merge_commit_sha) w;
             state1 = state\<lparr>build_res := none_dict builders',
                            merge_sha := merge_commit_sha\<rparr>;
             w2 = (if travis_token cfg = None
                   then w1\<lparr>buildbot_slots := merge_sha state1\<rparr> else w1);
             w3 = emit (LogInfo (''Starting build of #'' @ str_int (num state1)
                                 @ '' on '' @ branch @ '': '' @ merge_sha state1)) w2;
             desc = (if try' state1 then ''Trying'' else ''Testing'') @ '' commit ''
                    @ take 7 (head_sha state1) @ '' with merge ''
                    @ take 7 (merge_sha state1) @ ''...'';
             w4 = emit (CommitStatus rname (head_sha state1) ''pending'' desc) w3
         in case add_comment ('':hourglass: '' @ desc) (set_status ''pending'' (state1, w4)) of
              (state2, w5) \<Rightarrow>
                (Returned True, state2,
                 if \<not> try' state2
                 then w5\<lparr>db := db_update_merge_sha (merge_sha state2) (repo state2)
                                  (num state2) (db w5)\<rparr>
                 else w5))))"

definition start_build ::
  "platform \<Rightarrow> (string \<times> repo_cfg) list \<Rightarrow> string \<Rightarrow> PullReqState \<times> world \<Rightarrow>
   bool result \<times> PullReqState \<times> world" where
  "start_build pf repo_cfgs rname = (\<lambda>(state, w).
     if buildbot_slots w \<noteq> '''' then (Returned True, state, w)
     else if head_sha state \<noteq> pull_head_sha pf rname (num state) then
       (Raised AssertionError, state, w)
     else case map_of repo_cfgs rname of
       None \<Rightarrow> (Raised (KeyError rname), state, w)
     | Some cfg \<Rightarrow>
       (let master_sha = ref_sha pf rname (''heads/'' @ master_branch cfg);
            w1 = (case set_ref_error pf rname (''heads/'' @ tmp_branch cfg) of
                    None \<Rightarrow> emit (SetRef rname (''heads/'' @ tmp_branch cfg) master_sha) w
                  | Some _ \<Rightarrow>
                      emit (CreateRef rname (''refs/heads/'' @ tmp_branch cfg) master_sha) w);
            w2 = emit (Merge rname (tmp_branch cfg) (head_sha state) (merge_msg state)) w1
        in case merge_result pf rname (tmp_branch cfg) (head_sha state) (merge_msg state) of
          MergeError code \<Rightarrow>
            if code \<noteq> 409 then (Raised (GitHubError code), state, w2)
            else (case merge_conflict rname (state, w2) of
                    (state', w') \<Rightarrow> (Returned False, state', w'))
        | MergeCommit merge_commit_sha \<Rightarrow>
            merge_done pf cfg rname merge_commit_sha (state, w2)))"

section \<open>The scheduler\<close>

fun insort_state ::
  "int \<times> PullReqState \<Rightarrow> (int \<times> PullReqState) list \<Rightarrow> (int \<times> PullReqState) list" where
  "insort_state x [] = [x]"
| "insort_state x (y # ys) =
     (if state_lt (snd y) (snd x) then y # insort_state x ys else x # y # ys)"

definition sorted_states :: "(int \<times> PullReqState) list \<Rightarrow> (int \<times> PullReqState) list" where
  \<comment> \<open>\<open>sorted(d.values())\<close>, each state with its key in \<open>d\<close>: the stable sort by
      \<open>__lt__\<close>\<close>
  "sorted_states d = foldr insort_state d []"

definition lookup_state :: "string \<Rightarrow> int \<Rightarrow> world \<Rightarrow> PullReqState option" where
  \<comment> \<open>\<open>states[rname][k]\<close>, \<open>None\<close> for \<open>KeyError\<close>\<close>
  "lookup_state rname k w =
     (case map_of (states w) rname of None \<Rightarrow> None | Some d \<Rightarrow> map_of d k)"

definition store_state :: "string \<Rightarrow> int \<Rightarrow> PullReqState \<Rightarrow> world \<Rightarrow> world" where
  \<comment> \<open>the object under \<open>states[rname][k]\<close> now has the fields of \<open>state\<close>\<close>
  "store_state rname k state w =
     w\<lparr>states := AList.map_entry rname (AList.update k state) (states w)\<rparr>"

datatype ctl = Next | Return | Raise exn

definition try_start ::
  "platform \<Rightarrow> (string \<times> repo_cfg) list \<Rightarrow> string \<Rightarrow> int \<Rightarrow> PullReqState \<Rightarrow> world \<Rightarrow>
   bool result \<times> world" where
  \<comment> \<open>\<open>start_build(state, repo, ...)\<close> on the object stored under key \<open>k\<close>\<close>
  "try_start pf repo_cfgs rname k state w =
     (case start_build pf repo_cfgs rname (state, w) of
        (res, state', w') \<Rightarrow> (res, store_state rname k state' w'))"

text \<open>
  The two loops over \<open>repo_states\<close>. The list holds the keys of the sorted objects, and
  each iteration reads the object as it is now. A loop ends with \<open>Next\<close> when it is
  exhausted or left by \<open>break\<close>, with \<open>Return\<close> when \<open>process_queue\<close> returns, and
  with \<open>Raise\<close> when \<open>start_build\<close> raises.
\<close>

fun first_pass ::
  "platform \<Rightarrow> (string \<times> repo_cfg) list \<Rightarrow> string \<Rightarrow> int list \<Rightarrow> world \<Rightarrow> ctl \<times> world" where
  "first_pass pf repo_cfgs rname [] w = (Next, w)"
| "first_pass pf repo_cfgs rname (k # ks) w =
     (case lookup_state rname k w of
        None \<Rightarrow> first_pass pf repo_cfgs rname ks w
      | Some state \<Rightarrow>
          if status state = ''pending'' \<and> \<not> try' state then (Next, w)
          else if status state = '''' \<and> approved_by state \<noteq> '''' then
            (case try_start pf repo_cfgs rname k state w of
               (Returned True, w') \<Rightarrow> (Return, w')
             | (Returned False, w') \<Rightarrow> first_pass pf repo_cfgs rname ks w'
             | (Raised e, w') \<Rightarrow> (Raise e, w'))
          else if status state = ''success'' \<and> try' state \<and> approved_by state \<noteq> '''' then
            (case try_start pf repo_cfgs rname k (state\<lparr>try' := False\<rparr>) w of
               (Returned True, w') \<Rightarrow> (Return, w')
             | (Returned False, w') \<Rightarrow> first_pass pf repo_cfgs rname ks w'
             | (Raised e, w') \<Rightarrow> (Raise e, w'))
          else first_pass pf repo_cfgs rname ks w)"

fun second_pass ::
  "platform \<Rightarrow> (string \<times> repo_cfg) list \<Rightarrow> string \<Rightarrow> int list \<Rightarrow> world \<Rightarrow> ctl \<times> world" where
  "second_pass pf repo_cfgs rname [] w = (Next, w)"
| "second_pass pf repo_cfgs rname (k # ks) w =
     (case lookup_state rname k w of
        None \<Rightarrow> second_pass pf repo_cfgs rname ks w
      | Some state \<Rightarrow>
          if status state = '''' \<and> try' state then
            (case try_start pf repo_cfgs rname k state w of
               (Returned True, w') \<Rightarrow> (Return, w')
             | (Returned False, w') \<Rightarrow> second_pass pf repo_cfgs rname ks w'
             | (Raised e, w') \<Rightarrow> (Raise e, w'))
          else second_pass pf repo_cfgs rname ks w)"

definition repo_pass ::
  "platform \<Rightarrow> (string \<times> repo_cfg) list \<Rightarrow> string \<Rightarrow> world \<Rightarrow> ctl \<times> world" where
  \<comment> \<open>the body of \<open>for repo in repos.values()\<close>\<close>
  "repo_pass pf repo_cfgs rname w =
     (case map_of (states w) rname of
        None \<Rightarrow> (Raise (KeyError rname), w)
      | Some d \<Rightarrow>
          (let repo_states = map fst (sorted_states d)
           in case first_pass pf repo_cfgs rname repo_states w of
                (Next, w1) \<Rightarrow> second_pass pf repo_cfgs rname repo_states w1
              | (c, w1) \<Rightarrow> (c, w1)))"

fun process_queue ::
  "platform \<Rightarrow> (string \<times> repo_cfg) list \<Rightarrow> string list \<Rightarrow> world \<Rightarrow> unit result \<times> world" where
  \<comment> \<open>\<open>process_queue(states, repos, repo_cfgs, logger, cfg, buildbot_slots, db)\<close>; the
      list is \<open>[repo.name for repo in repos.values()]\<close>\<close>
  "process_queue pf repo_cfgs [] w = (Returned (), w)"
| "process_queue pf repo_cfgs (rname # rest) w =
     (case repo_pass pf repo_cfgs rname w of
        (Next, w') \<Rightarrow> process_queue pf repo_cfgs rest w'
      | (Return, w') \<Rightarrow> (Returned (), w')
      | (Raise e, w') \<Rightarrow> (Raised e, w'))"

section \<open>Startup recovery\<close>

text \<open>
  The loop of \<open>main\<close> over the rows fetched by \<open>SELECT repo, num, merge_sha FROM state\<close>,
  which runs once the states of the open PRs are loaded. A \<open>merge_sha\<close> is true in
  Python when it is neither \<open>NULL\<close> nor empty.
\<close>

fun recover_rows ::
  "(string \<times> repo_cfg) list \<Rightarrow> db_row list \<Rightarrow> world \<Rightarrow> unit result \<times> world" where
  "recover_rows repo_cfgs [] w = (Returned (), w)"
| "recover_rows repo_cfgs (row # rows) w =
     (case lookup_state (row_repo row) (row_num row) w of
        None \<Rightarrow>
          recover_rows repo_cfgs rows
            (w\<lparr>db := db_delete (row_repo row) (row_num row) (db w)\<rparr>)
      | Some state \<Rightarrow>
          if row_merge_sha row \<noteq> None \<and> row_merge_sha row \<noteq> Some '''' then
            (case map_of repo_cfgs (row_repo row) of
               None \<Rightarrow> (Raised (KeyError (row_repo row)), w)
             | Some cfg \<Rightarrow>
                 (let builders' = (if travis_token cfg \<noteq> None then [''travis'']
                                   else builders cfg)
                  in recover_rows repo_cfgs rows
                       (store_state (row_repo row) (row_num row)
                          (state\<lparr>build_res := none_dict builders',
                                 merge_sha := the (row_merge_sha row)\<rparr>) w)))
          else if status state = ''pending'' then
            recover_rows repo_cfgs rows
              (store_state (row_repo row) (row_num row) (state\<lparr>status := ''''\<rparr>) w)
          else recover_rows repo_cfgs rows w)"

definition recover :: "(string \<times> repo_cfg) list \<Rightarrow> world \<Rightarrow> unit result \<times> world" where
  "recover repo_cfgs w = recover_rows repo_cfgs (db w) w"


section \<open>Startup\<close>

text \<open>
  What \<open>main\<close> reads from the platform for one open pull request: its fields, the
  review comments (\<open>iter_comments\<close>) with the commit each is anchored to, the issue
  comments, and the commit statuses of its head as pairs of context and state.
\<close>

record comment =
  c_body :: string
  c_user :: string
  c_commit :: string

record pull =
  p_number :: int
  p_head_sha :: string
  p_title :: string
  p_body :: string
  p_head_owner :: string
  p_head_ref :: string
  p_base_ref :: string
  p_assignee :: "string option"
  p_comments :: "comment list"
  p_issue_comments :: "comment list"
  p_statuses :: "(string \<times> string) list"

definition new_state :: "int \<Rightarrow> string \<Rightarrow> string \<Rightarrow> string \<Rightarrow> PullReqState" where
  \<comment> \<open>\<open>PullReqState(num, head_sha, status, repo, db)\<close>: the class attributes, then
      \<open>head_advanced('', use_db=False)\<close>, then the assignments of \<open>__init__\<close>\<close>
  "new_state n sha st r =
     \<lparr>num = n, priority = 0, rollup = False, title = '''', body = '''', head_ref = '''',
      base_ref = '''', assignee = '''', head_sha = sha, approved_by = '''', status = st,
      merge_sha = '''', build_res = [], try' = False, mergeable = None, repo = r\<rparr>"

definition load_status :: "string \<Rightarrow> pull \<Rightarrow> world \<Rightarrow> string \<times> world" where
  \<comment> \<open>the status of the row of the pull request; without a row, the state of the first
      commit status with context \<open>homu\<close>, or the empty status, which is then inserted\<close>
  "load_status rname p w =
     (case find (\<lambda>x. row_repo x = rname \<and> row_num x = p_number p) (db w) of
        Some row \<Rightarrow> (row_status row, w)
      | None \<Rightarrow>
          (let st = (case find (\<lambda>info. fst info = ''homu'') (p_statuses p) of
                       Some info \<Rightarrow> snd info
                     | None \<Rightarrow> '''')
           in (st, w\<lparr>db := db w @ [\<lparr>row_repo = rname, row_num = p_number p, row_status = st,
                                     row_merge_sha = None\<rparr>]\<rparr>)))"

definition replay_review ::
  "platform \<Rightarrow> string \<Rightarrow> repo_cfg \<Rightarrow> pull \<Rightarrow> PullReqState \<times> world \<Rightarrow> comment \<Rightarrow>
   PullReqState \<times> world" where
  \<comment> \<open>the body of \<open>for comment in pull.iter_comments()\<close>\<close>
  "replay_review pf my_username cfg p sw c =
     (if c_commit c = p_head_sha p
      then snd (parse_commands pf (c_body c) (c_user c) cfg my_username False (c_commit c) sw)
      else sw)"

definition replay_issue ::
  "platform \<Rightarrow> string \<Rightarrow> repo_cfg \<Rightarrow> PullReqState \<times> world \<Rightarrow> comment \<Rightarrow>
   PullReqState \<times> world" where
  \<comment> \<open>the body of \<open>for comment in pull.iter_issue_comments()\<close>\<close>
  "replay_issue pf my_username cfg sw c =
     snd (parse_commands pf (c_body c) (c_user c) cfg my_username False '''' sw)"

definition load_pull ::
  "platform \<Rightarrow> string \<Rightarrow> string \<Rightarrow> repo_cfg \<Rightarrow> world \<Rightarrow> pull \<Rightarrow> world" where
  \<comment> \<open>the body of \<open>for pull in repo.iter_pulls(state='open')\<close>; its last statement,
      \<open>states[repo.name][pull.number] = state\<close>, is \<open>store_state\<close>\<close>
  "load_pull pf my_username rname cfg w p =
     (case load_status rname p w of
        (st, w1) \<Rightarrow>
          (let state = (new_state (p_number p) (p_head_sha p) st rname)
                 \<lparr>title := p_title p, body := p_body p,
                  head_ref := p_head_owner p @ '':'' @ p_head_ref p,
                  base_ref := p_base_ref p,
                  assignee := (case p_assignee p of Some a \<Rightarrow> a | None \<Rightarrow> '''')\<rparr>
           in case foldl (replay_issue pf my_username cfg)
                     (foldl (replay_review pf my_username cfg p) (state, w1) (p_comments p))
                     (p_issue_comments p) of
                (state', w2) \<Rightarrow> store_state rname (p_number p) state' w2))"

definition load_repo ::
  "platform \<Rightarrow> string \<Rightarrow> (string \<Rightarrow> pull list) \<Rightarrow> world \<times> (string \<times> repo_cfg) list \<Rightarrow>
   string \<times> repo_cfg \<Rightarrow> world \<times> (string \<times> repo_cfg) list" where
  \<comment> \<open>the body of \<open>for repo_cfg in cfg['repo']\<close>, for the repository named \<open>rname\<close>
      whose open pull requests are \<open>pulls rname\<close>; the second component is
      \<open>repo_cfgs\<close>\<close>
  "load_repo pf my_username pulls = (\<lambda>(w, repo_cfgs) (rname, cfg).
     (foldl (load_pull pf my_username rname cfg)
        (w\<lparr>states := AList.update rname [] (states w)\<rparr>) (pulls rname),
      AList.update rname cfg repo_cfgs))"

definition main_startup ::
  "platform \<Rightarrow> string \<Rightarrow> (string \<Rightarrow> pull list) \<Rightarrow> (string \<times> repo_cfg) list \<Rightarrow> db_row list \<Rightarrow>
   unit result \<times> world \<times> (string \<times> repo_cfg) list" where
  \<comment> \<open>\<open>main\<close> from the empty dictionaries up to the log line \<open>Done!\<close>, for the
      configured repositories \<open>cfg_repo\<close> and the rows \<open>rows\<close> found in the store\<close>
  "main_startup pf my_username pulls cfg_repo rows =
     (case foldl (load_repo pf my_username pulls)
             (\<lparr>states = [], buildbot_slots = '''', db = rows, effects = []\<rparr>, []) cfg_repo of
        (w, repo_cfgs) \<Rightarrow>
          (case recover repo_cfgs w of (res, w') \<Rightarrow> (res, w', repo_cfgs)))"


section \<open>Event intake\<close>

text \<open>
  Modelled from the spec: the event intake (\<open>server.py\<close>) is not among the sources. A
  comment goes to \<open>parse_commands\<close> with \<open>realtime\<close> set, a push goes to
  \<open>head_advanced\<close>, and the scheduler runs after each state-mutating event; \<open>Tick\<close> is
  one run of the scheduler by itself. An exception ends the handling of the event and
  leaves the world as it is at that point.
\<close>

datatype event =
    CommentAdded string int string string
  | HeadUpdated string int string
  | Tick

definition apply_event ::
  "platform \<Rightarrow> (string \<times> repo_cfg) list \<Rightarrow> string list \<Rightarrow> string \<Rightarrow> event \<Rightarrow> world \<Rightarrow> world" where
  "apply_event pf repo_cfgs repos my_username ev w =
     (case ev of
        CommentAdded rname k body' username \<Rightarrow>
          (case (lookup_state rname k w, map_of repo_cfgs rname) of
             (Some state, Some cfg) \<Rightarrow>
               (case parse_commands pf body' username cfg my_username True '''' (state, w) of
                  (changed, state', w') \<Rightarrow>
                    if changed
                    then snd (process_queue pf repo_cfgs repos (store_state rname k state' w'))
                    else store_state rname k state' w')
           | _ \<Rightarrow> w)
      | HeadUpdated rname k new_sha \<Rightarrow>
          (case lookup_state rname k w of
             Some state \<Rightarrow>
               (case head_advanced new_sha True (state, w) of
                  (state', w') \<Rightarrow>
                    snd (process_queue pf repo_cfgs repos (store_state rname k state' w')))
           | None \<Rightarrow> w)
      | Tick \<Rightarrow> snd (process_queue pf repo_cfgs repos w))"

definition run_events ::
  "platform \<Rightarrow> (string \<times> repo_cfg) list \<Rightarrow> string list \<Rightarrow> string \<Rightarrow> event list \<Rightarrow> world \<Rightarrow> world" where
  "run_events pf repo_cfgs repos my_username evs w =
     foldl (\<lambda>w' ev. apply_event pf repo_cfgs repos my_username ev w') w evs"

section \<open>Notions of the specification\<close>

definition effective_status :: "PullReqState \<Rightarrow> string" where
  \<comment> \<open>the derived status of the specification: \<open>approved\<close> when the persisted status is
      empty, an approver is set and the PR is not known to conflict; the raw status
      otherwise\<close>
  "effective_status s =
     (if status s = '''' \<and> approved_by s \<noteq> '''' \<and> mergeable s \<noteq> Some False
      then ''approved'' else status s)"

definition status_bucket :: "string \<Rightarrow> int" where
  \<comment> \<open>the priority bucket of the specification\<close>
  "status_bucket st =
     (if st = ''success'' then 0 else if st = ''pending'' then 1
      else if st = ''approved'' then 2 else if st = '''' then 3
      else if st = ''error'' then 4 else if st = ''failure'' then 5 else - 1)"

definition recognized :: "bool \<Rightarrow> string \<Rightarrow> bool" where
  \<comment> \<open>the command tokens of the specification's table; \<open>retry\<close>, \<open>try\<close>, \<open>try-\<close> and
      \<open>force\<close> are commands in \<open>realtime\<close> only\<close>
  "recognized realtime word =
     (word = ''r+'' \<or> prefix ''r='' word \<or> word = ''r-'' \<or> prefix ''p='' word
      \<or> word = ''rollup'' \<or> word = ''rollup-''
      \<or> (realtime \<and> (word = ''retry'' \<or> word = ''try'' \<or> word = ''try-'' \<or> word = ''force'')))"



definition row_of :: "string \<Rightarrow> int \<Rightarrow> db_row list \<Rightarrow> db_row list" where
  \<comment> \<open>\<open>SELECT * FROM state WHERE repo = ? AND num = ?\<close>\<close>
  "row_of r n rows = filter (\<lambda>x. row_repo x = r \<and> row_num x = n) rows"

section \<open>Example inputs\<close>

definition cfg_buildbot :: repo_cfg where
  "cfg_buildbot =
     \<lparr>reviewers = [''bob''], master_branch = ''master'', tmp_branch = ''tmp'',
      buildbot_branch = ''auto'', buildbot_try_branch = ''try'', builders = [''linux''],
      try_builders = [''linux-try''], buildbot_url = ''http://ci'', travis_token = None\<rparr>"

definition cfg_travis :: repo_cfg where
  "cfg_travis = cfg_buildbot\<lparr>travis_token := Some ''token''\<rparr>"

definition pf_ok :: platform where
  \<comment> \<open>PR 1 is at \<open>aaaa1111\<close>, every other PR at \<open>bbbb2222\<close>; every merge succeeds and
      gives the commit \<open>m\<close> followed by the head merged\<close>
  "pf_ok =
     \<lparr>pull_head_sha = (\<lambda>r n. if n = 1 then ''aaaa1111'' else ''bbbb2222''),
      ref_sha = (\<lambda>r b. ''cccc3333''),
      set_ref_error = (\<lambda>r b. None),
      merge_result = (\<lambda>r b h m. MergeCommit (CHR ''m'' # h)),
      stopselected_text = ''''\<rparr>"

definition pr1 :: PullReqState where
  "pr1 = new_state 1 ''aaaa1111'' '''' ''r''"

definition pr2 :: PullReqState where
  "pr2 = new_state 2 ''bbbb2222'' '''' ''r''"

definition w_two :: world where
  \<comment> \<open>one repository \<open>r\<close> with the open PRs 1 and 2, nothing built yet\<close>
  "w_two = \<lparr>states = [(''r'', [(1, pr1), (2, pr2)])], buildbot_slots = '''', db = [],
            effects = []\<rparr>"



definition evs_two_gated :: "event list" where
  \<comment> \<open>\<open>bob\<close> approves PR 1, asks for a try build of PR 2 and then withdraws the try\<close>
  "evs_two_gated =
     [CommentAdded ''r'' 1 ''@bot r+ aaaa'' ''bob'',
      CommentAdded ''r'' 2 ''@bot try'' ''bob'',
      CommentAdded ''r'' 2 ''@bot try-'' ''bob'']"

definition pr7 :: PullReqState where
  "pr7 = new_state 7 ''aaaa1111'' ''pending'' ''r''"

definition pr8 :: PullReqState where
  "pr8 = new_state 8 ''bbbb2222'' ''pending'' ''r''"

definition row7 :: db_row where
  "row7 = \<lparr>row_repo = ''r'', row_num = 7, row_status = ''pending'',
           row_merge_sha = Some ''mmmm7777''\<rparr>"

definition row8 :: db_row where
  "row8 = \<lparr>row_repo = ''r'', row_num = 8, row_status = ''pending'', row_merge_sha = None\<rparr>"

definition w_restart :: world where
  \<comment> \<open>the states as loaded at startup: PRs 7 and 8 are open and were persisted as
      pending, PR 7 with its merge commit; the row of PR 9 has no open PR\<close>
  "w_restart =
     \<lparr>states = [(''r'', [(7, pr7), (8, pr8)])], buildbot_slots = '''',
      db = [row7, row8,
            \<lparr>row_repo = ''r'', row_num = 9, row_status = ''success'', row_merge_sha = None\<rparr>],
      effects = []\<rparr>"


section \<open>Comparing two runs of the parser\<close>

text \<open>
  Two runs of the same commands, one from \<open>s\<close> to \<open>s'\<close> and one from \<open>t\<close> to \<open>t'\<close>,
  agree on a field when both runs wrote the same value to it or neither wrote it.
  \<open>unwritten\<close> lists the fields that no command writes; \<open>same_writes\<close> says that the fields
  that commands do write agree.
\<close>

definition agree ::
  "(PullReqState \<Rightarrow> 'a) \<Rightarrow> PullReqState \<Rightarrow> PullReqState \<Rightarrow> PullReqState \<Rightarrow> PullReqState \<Rightarrow> bool" where
  "agree f s t s' t' \<longleftrightarrow> f s' = f t' \<or> (f s' = f s \<and> f t' = f t)"

definition unwritten :: "PullReqState \<Rightarrow> PullReqState \<Rightarrow> bool" where
  "unwritten s s' \<longleftrightarrow>
     num s' = num s \<and> title s' = title s \<and> body s' = body s \<and> head_ref s' = head_ref s
     \<and> base_ref s' = base_ref s \<and> assignee s' = assignee s \<and> head_sha s' = head_sha s
     \<and> mergeable s' = mergeable s \<and> repo s' = repo s"

definition same_writes ::
  "PullReqState \<Rightarrow> PullReqState \<Rightarrow> PullReqState \<Rightarrow> PullReqState \<Rightarrow> bool" where
  "same_writes s t s' t' \<longleftrightarrow>
     unwritten s s' \<and> unwritten t t'
     \<and> agree approved_by s t s' t' \<and> agree priority s t s' t' \<and> agree rollup s t s' t'
     \<and> agree status s t s' t' \<and> agree merge_sha s t s' t' \<and> agree build_res s t s' t'
     \<and> agree try' s t s' t'"

section \<open>What loading establishes\<close>

text \<open>
  While the open PRs are loaded, the rows of the store stay unique in \<open>(repo, num)\<close> and
  every loaded state has a row with its status (\<open>rows_match\<close>), and every repository with
  a dictionary of states has a configuration (\<open>cfgs_cover\<close>).
\<close>

definition row_key :: "db_row \<Rightarrow> string \<times> int" where
  "row_key x = (row_repo x, row_num x)"

definition rows_match :: "world \<Rightarrow> bool" where
  "rows_match w \<longleftrightarrow>
     distinct (map row_key (db w))
     \<and> (\<forall>r n st. lookup_state r n w = Some st \<longrightarrow>
           (\<exists>x \<in> set (db w). row_key x = (r, n) \<and> row_status x = status st))"

definition cfgs_cover :: "world \<Rightarrow> (string \<times> repo_cfg) list \<Rightarrow> bool" where
  "cfgs_cover w repo_cfgs \<longleftrightarrow>
     (\<forall>q. map_of (states w) q \<noteq> None \<longrightarrow> map_of repo_cfgs q \<noteq> None)"


section \<open>Auxiliary facts\<close>

lemma startswith_prefix: "startswith p w = prefix p w"
  unfolding startswith_def
  by (metis append_eq_conv_conj prefix_def take_is_prefix)

lemma contains_sublist: "contains n h = sublist n h"
  by (induction h) (auto simp: startswith_prefix sublist_Cons_right)


lemma list_lt_lexord: "list_lt xs ys \<longleftrightarrow> (xs, ys) \<in> lexord {(x, y). x < y}"
  by (induction xs ys rule: list_lt.induct) auto

lemma do_word_found:
  "fst (do_word pf username cfg realtime word rest (sha, state, w)) = recognized realtime word"
  unfolding do_word_def recognized_def startswith_prefix
  by (simp add: Let_def split: option.splits prod.splits)

lemma cmd_loop_changed:
  "fst (cmd_loop pf username cfg realtime ws (ch, sha, state, w))
     = (ch \<or> (\<exists>word \<in> set ws. recognized realtime word))"
proof (induction ws arbitrary: ch sha state w)
  case Nil
  show ?case by simp
next
  case (Cons word rest)
  obtain found sha' state' w' where
    d: "do_word pf username cfg realtime word rest (sha, state, w) = (found, sha', state', w')"
    by (metis prod_cases4)
  then have f: "found = recognized realtime word"
    using do_word_found[of pf username cfg realtime word rest sha state w] by simp
  show ?case using Cons.IH[of "if found then True else ch" sha' state' w'] d f
    by auto
qed


subsection \<open>What one scheduler tick can change\<close>

lemma map_of_states_store:
  "map_of (states (store_state r k st w)) r' =
     (if r' = r then map_option (AList.update k st) (map_of (states w) r)
      else map_of (states w) r')"
  by (simp add: store_state_def map_of_map_entry split: option.splits)

lemma lookup_store:
  "lookup_state r' k' (store_state r k st w) =
     (if r' = r \<and> k' = k \<and> map_of (states w) r \<noteq> None then Some st
      else lookup_state r' k' w)"
  by (auto simp: lookup_state_def map_of_states_store update_conv' split: option.splits)





lemma emit_fields:
  "states (emit e w) = states w" "buildbot_slots (emit e w) = buildbot_slots w"
  by (simp_all add: emit_def)










subsection \<open>A build that is started\<close>

lemma merge_done_started:
  "merge_done pf cfg rname m (state, w) = (Returned True, state', w') \<Longrightarrow>
     merge_sha state' = m \<and> status state' = ''pending'' \<and> try' state' = try' state
     \<and> buildbot_slots w' = (if travis_token cfg = None then m else buildbot_slots w)"
  unfolding merge_done_def Let_def add_comment_def set_status_def emit_def
  by (simp split: if_splits option.splits prod.splits; clarsimp)

lemma merge_done_returns:
  "set_ref_error pf rname (''heads/'' @ (if travis_token cfg \<noteq> None then buildbot_branch cfg
        else if try' state then buildbot_try_branch cfg else buildbot_branch cfg)) = None \<Longrightarrow>
     fst (merge_done pf cfg rname m (state, w)) = Returned True"
  unfolding merge_done_def Let_def add_comment_def set_status_def emit_def
  by (simp split: if_splits option.splits prod.splits)

lemma start_build_started:
  assumes e: "start_build pf repo_cfgs rname (state, w) = (Returned True, state', w')"
    and s: "buildbot_slots w = ''''"
    and c: "map_of repo_cfgs rname = Some cfg"
  shows "\<exists>m. merge_result pf rname (tmp_branch cfg) (head_sha state) (merge_msg state)
                = MergeCommit m
           \<and> merge_sha state' = m \<and> status state' = ''pending'' \<and> try' state' = try' state
           \<and> buildbot_slots w' = (if travis_token cfg = None then m else '''')"
proof (cases "merge_result pf rname (tmp_branch cfg) (head_sha state) (merge_msg state)")
  case (MergeError code)
  with e s c show ?thesis
    by (auto simp: start_build_def Let_def split: if_splits prod.splits)
next
  case (MergeCommit m)
  have h: "head_sha state = pull_head_sha pf rname (num state)"
  proof (rule ccontr)
    assume "head_sha state \<noteq> pull_head_sha pf rname (num state)"
    with e s show False by (simp add: start_build_def)
  qed
  let ?w1 = "case set_ref_error pf rname (''heads/'' @ tmp_branch cfg) of
               None \<Rightarrow> emit (SetRef rname (''heads/'' @ tmp_branch cfg)
                         (ref_sha pf rname (''heads/'' @ master_branch cfg))) w
             | Some x \<Rightarrow> emit (CreateRef rname (''refs/heads/'' @ tmp_branch cfg)
                         (ref_sha pf rname (''heads/'' @ master_branch cfg))) w"
  let ?w2 = "emit (Merge rname (tmp_branch cfg) (head_sha state) (merge_msg state)) ?w1"
  have w2: "buildbot_slots ?w2 = ''''"
    using s by (simp add: emit_fields split: option.splits)
  have "start_build pf repo_cfgs rname (state, w) = merge_done pf cfg rname m (state, ?w2)"
    using s c h MergeCommit
    by (cases "set_ref_error pf rname (''heads/'' @ tmp_branch cfg)")
       (simp_all add: start_build_def Let_def)
  with e have d: "merge_done pf cfg rname m (state, ?w2) = (Returned True, state', w')"
    by simp
  from merge_done_started[OF d] w2 MergeCommit show ?thesis by simp
qed

lemma start_build_starts:
  assumes "buildbot_slots w = ''''"
    and "head_sha state = pull_head_sha pf rname (num state)"
    and "map_of repo_cfgs rname = Some cfg"
    and "merge_result pf rname (tmp_branch cfg) (head_sha state) (merge_msg state) = MergeCommit m"
    and "set_ref_error pf rname (''heads/'' @ (if travis_token cfg \<noteq> None then buildbot_branch cfg
        else if try' state then buildbot_try_branch cfg else buildbot_branch cfg)) = None"
  shows "fst (start_build pf repo_cfgs rname (state, w)) = Returned True"
  using assms(1-4) merge_done_returns[OF assms(5)]
  by (simp add: start_build_def Let_def)


subsection \<open>Two runs of the parser write the same values\<close>

lemma agree_refl: "agree f s t s t"
  by (simp add: agree_def)

lemma agree_trans:
  "agree f s t s1 t1 \<Longrightarrow> agree f s1 t1 s2 t2 \<Longrightarrow> agree f s t s2 t2"
  unfolding agree_def by metis

lemma unwritten_trans: "unwritten s s1 \<Longrightarrow> unwritten s1 s2 \<Longrightarrow> unwritten s s2"
  by (simp add: unwritten_def)

lemma same_writes_refl: "same_writes s t s t"
  by (simp add: same_writes_def unwritten_def agree_refl)

lemma same_writes_trans:
  assumes "same_writes s t s1 t1" and "same_writes s1 t1 s2 t2"
  shows "same_writes s t s2 t2"
  using assms unfolding same_writes_def
  by (meson agree_trans unwritten_trans)

text \<open>The eight branches of the loop body, one lemma each.\<close>

lemmas do_word_defs = do_word_def same_writes_def unwritten_def agree_def Let_def add_comment_def
  set_status_def

lemma do_word_approve:
  assumes "head_sha s = head_sha t"
    and "word = ''r+'' \<or> startswith ''r='' word"
  shows "fst (snd (do_word pf u cfg rt word rest (sha, s, w)))
           = fst (snd (do_word pf u cfg rt word rest (sha, t, w2)))
       \<and> same_writes s t (fst (snd (snd (do_word pf u cfg rt word rest (sha, s, w)))))
                          (fst (snd (snd (do_word pf u cfg rt word rest (sha, t, w2)))))"
  using assms by (simp add: do_word_defs)

lemma do_word_unapprove:
  assumes "head_sha s = head_sha t"
    and "\<not> (word = ''r+'' \<or> startswith ''r='' word)"
    and "word = ''r-''"
  shows "fst (snd (do_word pf u cfg rt word rest (sha, s, w)))
           = fst (snd (do_word pf u cfg rt word rest (sha, t, w2)))
       \<and> same_writes s t (fst (snd (snd (do_word pf u cfg rt word rest (sha, s, w)))))
                          (fst (snd (snd (do_word pf u cfg rt word rest (sha, t, w2)))))"
  using assms by (simp add: do_word_defs)

lemma do_word_prio:
  assumes "head_sha s = head_sha t"
    and "\<not> (word = ''r+'' \<or> startswith ''r='' word)"
    and "\<not> (word = ''r-'')"
    and "startswith ''p='' word"
  shows "fst (snd (do_word pf u cfg rt word rest (sha, s, w)))
           = fst (snd (do_word pf u cfg rt word rest (sha, t, w2)))
       \<and> same_writes s t (fst (snd (snd (do_word pf u cfg rt word rest (sha, s, w)))))
                          (fst (snd (snd (do_word pf u cfg rt word rest (sha, t, w2)))))"
  using assms by (simp add: do_word_defs split: option.splits)

lemma do_word_retry:
  assumes "head_sha s = head_sha t"
    and "\<not> (word = ''r+'' \<or> startswith ''r='' word)"
    and "\<not> (word = ''r-'')"
    and "\<not> (startswith ''p='' word)"
    and "word = ''retry'' \<and> rt"
  shows "fst (snd (do_word pf u cfg rt word rest (sha, s, w)))
           = fst (snd (do_word pf u cfg rt word rest (sha, t, w2)))
       \<and> same_writes s t (fst (snd (snd (do_word pf u cfg rt word rest (sha, s, w)))))
                          (fst (snd (snd (do_word pf u cfg rt word rest (sha, t, w2)))))"
  using assms by (simp add: do_word_defs)

lemma do_word_trybuild:
  assumes "head_sha s = head_sha t"
    and "\<not> (word = ''r+'' \<or> startswith ''r='' word)"
    and "\<not> (word = ''r-'')"
    and "\<not> (startswith ''p='' word)"
    and "\<not> (word = ''retry'' \<and> rt)"
    and "word \<in> set [''try'', ''try-''] \<and> rt"
  shows "fst (snd (do_word pf u cfg rt word rest (sha, s, w)))
           = fst (snd (do_word pf u cfg rt word rest (sha, t, w2)))
       \<and> same_writes s t (fst (snd (snd (do_word pf u cfg rt word rest (sha, s, w)))))
                          (fst (snd (snd (do_word pf u cfg rt word rest (sha, t, w2)))))"
  using assms by (simp add: do_word_defs)

lemma do_word_rollup:
  assumes "head_sha s = head_sha t"
    and "\<not> (word = ''r+'' \<or> startswith ''r='' word)"
    and "\<not> (word = ''r-'')"
    and "\<not> (startswith ''p='' word)"
    and "\<not> (word = ''retry'' \<and> rt)"
    and "\<not> (word \<in> set [''try'', ''try-''] \<and> rt)"
    and "word \<in> set [''rollup'', ''rollup-'']"
  shows "fst (snd (do_word pf u cfg rt word rest (sha, s, w)))
           = fst (snd (do_word pf u cfg rt word rest (sha, t, w2)))
       \<and> same_writes s t (fst (snd (snd (do_word pf u cfg rt word rest (sha, s, w)))))
                          (fst (snd (snd (do_word pf u cfg rt word rest (sha, t, w2)))))"
  using assms by (auto simp add: do_word_defs)

lemma do_word_force:
  assumes "head_sha s = head_sha t"
    and "\<not> (word = ''r+'' \<or> startswith ''r='' word)"
    and "\<not> (word = ''r-'')"
    and "\<not> (startswith ''p='' word)"
    and "\<not> (word = ''retry'' \<and> rt)"
    and "\<not> (word \<in> set [''try'', ''try-''] \<and> rt)"
    and "\<not> (word \<in> set [''rollup'', ''rollup-''])"
    and "word = ''force'' \<and> rt"
  shows "fst (snd (do_word pf u cfg rt word rest (sha, s, w)))
           = fst (snd (do_word pf u cfg rt word rest (sha, t, w2)))
       \<and> same_writes s t (fst (snd (snd (do_word pf u cfg rt word rest (sha, s, w)))))
                          (fst (snd (snd (do_word pf u cfg rt word rest (sha, t, w2)))))"
  using assms by (auto simp add: do_word_defs)

lemma do_word_other:
  assumes "head_sha s = head_sha t"
    and "\<not> (word = ''r+'' \<or> startswith ''r='' word)"
    and "\<not> (word = ''r-'')"
    and "\<not> (startswith ''p='' word)"
    and "\<not> (word = ''retry'' \<and> rt)"
    and "\<not> (word \<in> set [''try'', ''try-''] \<and> rt)"
    and "\<not> (word \<in> set [''rollup'', ''rollup-''])"
    and "\<not> (word = ''force'' \<and> rt)"
  shows "fst (snd (do_word pf u cfg rt word rest (sha, s, w)))
           = fst (snd (do_word pf u cfg rt word rest (sha, t, w2)))
       \<and> same_writes s t (fst (snd (snd (do_word pf u cfg rt word rest (sha, s, w)))))
                          (fst (snd (snd (do_word pf u cfg rt word rest (sha, t, w2)))))"
  using assms by (auto simp add: do_word_defs)

lemma do_word_writes:
  assumes h: "head_sha s = head_sha t"
  shows "fst (snd (do_word pf u cfg rt word rest (sha, s, w)))
           = fst (snd (do_word pf u cfg rt word rest (sha, t, w2)))
       \<and> same_writes s t (fst (snd (snd (do_word pf u cfg rt word rest (sha, s, w)))))
                          (fst (snd (snd (do_word pf u cfg rt word rest (sha, t, w2)))))"
proof -
  show ?thesis
  proof (cases "word = ''r+'' \<or> startswith ''r='' word")
    case True
    show ?thesis by (rule do_word_approve[OF h True])
  next
    case c0: False
    show ?thesis
    proof (cases "word = ''r-''")
      case True
      show ?thesis by (rule do_word_unapprove[OF h c0 True])
    next
      case c1: False
      show ?thesis
      proof (cases "startswith ''p='' word")
        case True
        show ?thesis by (rule do_word_prio[OF h c0 c1 True])
      next
        case c2: False
        show ?thesis
        proof (cases "word = ''retry'' \<and> rt")
          case True
          show ?thesis by (rule do_word_retry[OF h c0 c1 c2 True])
        next
          case c3: False
          show ?thesis
          proof (cases "word \<in> set [''try'', ''try-''] \<and> rt")
            case True
            show ?thesis by (rule do_word_trybuild[OF h c0 c1 c2 c3 True])
          next
            case c4: False
            show ?thesis
            proof (cases "word \<in> set [''rollup'', ''rollup-'']")
              case True
              show ?thesis by (rule do_word_rollup[OF h c0 c1 c2 c3 c4 True])
            next
              case c5: False
              show ?thesis
              proof (cases "word = ''force'' \<and> rt")
                case True
                show ?thesis by (rule do_word_force[OF h c0 c1 c2 c3 c4 c5 True])
              next
                case c6: False
                show ?thesis by (rule do_word_other[OF h c0 c1 c2 c3 c4 c5 c6])
              qed
            qed
          qed
        qed
      qed
    qed
  qed
qed

lemma same_writes_fix:
  assumes "same_writes s t t t'"
  shows "t' = t"
proof (rule PullReqState.equality)
  from assms have u: "unwritten t t'" by (simp add: same_writes_def)
  from u show "num t' = num t" "title t' = title t" "body t' = body t"
    "head_ref t' = head_ref t" "base_ref t' = base_ref t" "assignee t' = assignee t"
    "head_sha t' = head_sha t" "mergeable t' = mergeable t" "repo t' = repo t"
    by (simp_all add: unwritten_def)
  have a: "f t' = f t" if "agree f s t t t'" for f :: "PullReqState \<Rightarrow> 'a"
    using that by (auto simp: agree_def)
  from assms show "approved_by t' = approved_by t" by (simp add: same_writes_def a)
  from assms show "priority t' = priority t" by (simp add: same_writes_def a)
  from assms show "rollup t' = rollup t" by (simp add: same_writes_def a)
  from assms show "status t' = status t" by (simp add: same_writes_def a)
  from assms show "merge_sha t' = merge_sha t" by (simp add: same_writes_def a)
  from assms show "build_res t' = build_res t" by (simp add: same_writes_def a)
  from assms show "try' t' = try' t" by (simp add: same_writes_def a)
  show "PullReqState.more t' = PullReqState.more t" by simp
qed

lemma cmd_loop_writes:
  "head_sha s = head_sha t \<Longrightarrow>
   same_writes s t (fst (snd (snd (cmd_loop pf u cfg rt ws (ch, sha, s, w)))))
                   (fst (snd (snd (cmd_loop pf u cfg rt ws (ch', sha, t, w2)))))"
proof (induction ws arbitrary: ch ch' sha s t w w2)
  case Nil
  show ?case by (simp add: same_writes_refl)
next
  case (Cons word rest)
  obtain f1 sha1 s1 w1 where A: "do_word pf u cfg rt word rest (sha, s, w) = (f1, sha1, s1, w1)"
    by (metis prod_cases4)
  obtain f2 sha2 t1 w3 where B: "do_word pf u cfg rt word rest (sha, t, w2) = (f2, sha2, t1, w3)"
    by (metis prod_cases4)
  from do_word_writes[OF Cons.prems, of pf u cfg rt word rest sha w w2] A B
  have e: "sha2 = sha1" and sw: "same_writes s t s1 t1" by simp_all
  from sw Cons.prems have "head_sha s1 = head_sha t1"
    by (simp add: same_writes_def unwritten_def)
  from Cons.IH[OF this]
  have "same_writes s1 t1
          (fst (snd (snd (cmd_loop pf u cfg rt rest
                            ((if f1 then True else ch), sha1, s1, w1)))))
          (fst (snd (snd (cmd_loop pf u cfg rt rest
                            ((if f2 then True else ch'), sha1, t1, w3)))))" .
  from same_writes_trans[OF sw this] show ?case using A B e by simp
qed


subsection \<open>Startup recovery, row by row\<close>

lemma lookup_store_other:
  "\<not> (r' = r \<and> k' = k) \<Longrightarrow> lookup_state r' k' (store_state r k st w) = lookup_state r' k' w"
  by (auto simp: lookup_store)

lemma states_none_store:
  "(map_of (states (store_state r k st w)) q = None) = (map_of (states w) q = None)"
  by (simp add: map_of_states_store)

lemma lookup_some_states:
  "lookup_state r k w = Some st \<Longrightarrow> map_of (states w) r \<noteq> None"
  by (auto simp: lookup_state_def split: option.splits)

lemma store_fields: "db (store_state r k st w) = db w"
  by (simp add: store_state_def)

lemma none_dict_keys:
  "map_of (foldl (\<lambda>d x. AList.update x None d) d0 bs) b
     = (if b \<in> set bs then Some None else map_of d0 b)"
  by (induction bs arbitrary: d0) (auto simp: update_conv')

lemma none_dict_distinct:
  "distinct (map fst d0) \<Longrightarrow> distinct (map fst (foldl (\<lambda>d x. AList.update x None d) d0 bs))"
  by (induction bs arbitrary: d0) (auto simp: distinct_update)

lemma none_dict_pending:
  "map_of (none_dict bs) b = (if b \<in> set bs then Some None else None)"
  "distinct (map fst (none_dict bs))"
  by (simp_all add: none_dict_def none_dict_keys none_dict_distinct)

lemma recover_step_other:
  assumes key: "\<not> (row_repo x = r \<and> row_num x = n)"
    and ok: "\<forall>q. map_of (states w) q \<noteq> None \<longrightarrow> map_of repo_cfgs q \<noteq> None"
  shows "\<exists>w1. recover_rows repo_cfgs (x # rs) w = recover_rows repo_cfgs rs w1
        \<and> lookup_state r n w1 = lookup_state r n w
        \<and> (\<forall>q. (map_of (states w1) q = None) = (map_of (states w) q = None))
        \<and> (\<forall>y. y \<in> set (db w) \<and> row_repo y = r \<and> row_num y = n \<longrightarrow> y \<in> set (db w1))"
proof (cases "lookup_state (row_repo x) (row_num x) w")
  case None
  let ?w1 = "w\<lparr>db := db_delete (row_repo x) (row_num x) (db w)\<rparr>"
  have "recover_rows repo_cfgs (x # rs) w = recover_rows repo_cfgs rs ?w1"
    using None by simp
  moreover have "lookup_state r n ?w1 = lookup_state r n w" by (simp add: lookup_state_def)
  moreover have "\<forall>q. (map_of (states ?w1) q = None) = (map_of (states w) q = None)" by simp
  moreover have "\<forall>y. y \<in> set (db w) \<and> row_repo y = r \<and> row_num y = n \<longrightarrow> y \<in> set (db ?w1)"
    using key by (auto simp: db_delete_def)
  ultimately show ?thesis by blast
next
  case (Some st)
  from lookup_some_states[OF Some] ok obtain cfg where cfg: "map_of repo_cfgs (row_repo x) = Some cfg"
    by blast
  have k: "\<not> (r = row_repo x \<and> n = row_num x)" using key by blast
  show ?thesis
  proof (cases "row_merge_sha x \<noteq> None \<and> row_merge_sha x \<noteq> Some ''''")
    case True
    let ?w1 = "store_state (row_repo x) (row_num x)
      (st\<lparr>build_res := none_dict (if travis_token cfg \<noteq> None then [''travis''] else builders cfg),
          merge_sha := the (row_merge_sha x)\<rparr>) w"
    have "recover_rows repo_cfgs (x # rs) w = recover_rows repo_cfgs rs ?w1"
      using Some True cfg by (cases "row_merge_sha x") (auto simp: Let_def)
    moreover have "lookup_state r n ?w1 = lookup_state r n w"
      by (rule lookup_store_other[OF k])
    moreover have "\<forall>q. (map_of (states ?w1) q = None) = (map_of (states w) q = None)"
      by (simp add: states_none_store)
    moreover have "\<forall>y. y \<in> set (db w) \<and> row_repo y = r \<and> row_num y = n \<longrightarrow> y \<in> set (db ?w1)"
      by (simp add: store_fields)
    ultimately show ?thesis by blast
  next
    case False
    show ?thesis
    proof (cases "status st = ''pending''")
      case True
      let ?w1 = "store_state (row_repo x) (row_num x) (st\<lparr>status := ''''\<rparr>) w"
      have "recover_rows repo_cfgs (x # rs) w = recover_rows repo_cfgs rs ?w1"
        using Some False True by (cases "row_merge_sha x") auto
      moreover have "lookup_state r n ?w1 = lookup_state r n w"
        by (rule lookup_store_other[OF k])
      moreover have "\<forall>q. (map_of (states ?w1) q = None) = (map_of (states w) q = None)"
        by (simp add: states_none_store)
      moreover have "\<forall>y. y \<in> set (db w) \<and> row_repo y = r \<and> row_num y = n \<longrightarrow> y \<in> set (db ?w1)"
        by (simp add: store_fields)
      ultimately show ?thesis by blast
    next
      case np: False
      have "recover_rows repo_cfgs (x # rs) w = recover_rows repo_cfgs rs w"
        using Some False np by (cases "row_merge_sha x") auto
      then show ?thesis by blast
    qed
  qed
qed

lemma recover_rows_other:
  assumes "\<forall>x\<in>set rs. \<not> (row_repo x = r \<and> row_num x = n)"
    and "\<forall>q. map_of (states w) q \<noteq> None \<longrightarrow> map_of repo_cfgs q \<noteq> None"
  shows "\<exists>w'. recover_rows repo_cfgs rs w = (Returned (), w')
        \<and> lookup_state r n w' = lookup_state r n w
        \<and> (\<forall>y. y \<in> set (db w) \<and> row_repo y = r \<and> row_num y = n \<longrightarrow> y \<in> set (db w'))"
  using assms
proof (induction rs arbitrary: w)
  case Nil
  show ?case by simp
next
  case (Cons x rs)
  from Cons.prems(1) have key: "\<not> (row_repo x = r \<and> row_num x = n)" by simp
  from recover_step_other[OF key Cons.prems(2), of rs] obtain w1 where
    s: "recover_rows repo_cfgs (x # rs) w = recover_rows repo_cfgs rs w1"
    and l: "lookup_state r n w1 = lookup_state r n w"
    and d: "\<forall>q. (map_of (states w1) q = None) = (map_of (states w) q = None)"
    and y: "\<forall>y. y \<in> set (db w) \<and> row_repo y = r \<and> row_num y = n \<longrightarrow> y \<in> set (db w1)"
    by blast
  have ok1: "\<forall>q. map_of (states w1) q \<noteq> None \<longrightarrow> map_of repo_cfgs q \<noteq> None"
    using d Cons.prems(2) by simp
  have rest: "\<forall>x\<in>set rs. \<not> (row_repo x = r \<and> row_num x = n)" using Cons.prems(1) by simp
  from Cons.IH[OF rest ok1] obtain w' where
    "recover_rows repo_cfgs rs w1 = (Returned (), w')"
    "lookup_state r n w' = lookup_state r n w1"
    "\<forall>y. y \<in> set (db w1) \<and> row_repo y = r \<and> row_num y = n \<longrightarrow> y \<in> set (db w')"
    by blast
  with s l y show ?case by auto
qed

lemma lookup_store_same:
  "map_of (states w) r \<noteq> None \<Longrightarrow> lookup_state r k (store_state r k st w) = Some st"
  by (simp add: lookup_store)

lemma recover_step_hit:
  assumes l: "lookup_state (row_repo row) (row_num row) w = Some st"
    and c: "map_of repo_cfgs (row_repo row) = Some cfg"
  shows "\<exists>w1. recover_rows repo_cfgs (row # rs) w = recover_rows repo_cfgs rs w1
        \<and> lookup_state (row_repo row) (row_num row) w1
            = Some (if row_merge_sha row \<noteq> None \<and> row_merge_sha row \<noteq> Some ''''
                    then st\<lparr>build_res := none_dict (if travis_token cfg \<noteq> None
                                                      then [''travis''] else builders cfg),
                            merge_sha := the (row_merge_sha row)\<rparr>
                    else if status st = ''pending'' then st\<lparr>status := ''''\<rparr> else st)
        \<and> (\<forall>q. (map_of (states w1) q = None) = (map_of (states w) q = None))
        \<and> db w1 = db w"
proof -
  note s = lookup_some_states[OF l]
  show ?thesis
  proof (cases "row_merge_sha row \<noteq> None \<and> row_merge_sha row \<noteq> Some ''''")
    case True
    let ?st1 = "st\<lparr>build_res := none_dict (if travis_token cfg \<noteq> None
                                              then [''travis''] else builders cfg),
                    merge_sha := the (row_merge_sha row)\<rparr>"
    let ?w1 = "store_state (row_repo row) (row_num row) ?st1 w"
    have e: "(if row_merge_sha row \<noteq> None \<and> row_merge_sha row \<noteq> Some ''''
                    then st\<lparr>build_res := none_dict (if travis_token cfg \<noteq> None
                                                      then [''travis''] else builders cfg),
                            merge_sha := the (row_merge_sha row)\<rparr>
                    else if status st = ''pending'' then st\<lparr>status := ''''\<rparr> else st) = ?st1"
      by (rule if_P[OF True])
    have a: "recover_rows repo_cfgs (row # rs) w = recover_rows repo_cfgs rs ?w1"
      using l True c by (cases "row_merge_sha row") (auto simp: Let_def)
    have b: "lookup_state (row_repo row) (row_num row) ?w1 = Some ?st1"
      by (rule lookup_store_same[OF s])
    have d: "\<forall>q. (map_of (states ?w1) q = None) = (map_of (states w) q = None)"
      by (simp add: states_none_store)
    have f: "db ?w1 = db w" by (simp add: store_fields)
    show ?thesis unfolding e by (intro exI[of _ ?w1] conjI a b d f)
  next
    case False
    show ?thesis
    proof (cases "status st = ''pending''")
      case True
      let ?w1 = "store_state (row_repo row) (row_num row) (st\<lparr>status := ''''\<rparr>) w"
      have e: "(if row_merge_sha row \<noteq> None \<and> row_merge_sha row \<noteq> Some ''''
                    then st\<lparr>build_res := none_dict (if travis_token cfg \<noteq> None
                                                      then [''travis''] else builders cfg),
                            merge_sha := the (row_merge_sha row)\<rparr>
                    else if status st = ''pending'' then st\<lparr>status := ''''\<rparr> else st) = st\<lparr>status := ''''\<rparr>"
        by (rule trans[OF if_not_P[OF False] if_P[OF True]])
      have a: "recover_rows repo_cfgs (row # rs) w = recover_rows repo_cfgs rs ?w1"
        using l False True by (cases "row_merge_sha row") auto
      have b: "lookup_state (row_repo row) (row_num row) ?w1 = Some (st\<lparr>status := ''''\<rparr>)"
        by (rule lookup_store_same[OF s])
      have d: "\<forall>q. (map_of (states ?w1) q = None) = (map_of (states w) q = None)"
        by (simp add: states_none_store)
      have f: "db ?w1 = db w" by (simp add: store_fields)
      show ?thesis unfolding e by (intro exI[of _ ?w1] conjI a b d f)
    next
      case np: False
      have e: "(if row_merge_sha row \<noteq> None \<and> row_merge_sha row \<noteq> Some ''''
                    then st\<lparr>build_res := none_dict (if travis_token cfg \<noteq> None
                                                      then [''travis''] else builders cfg),
                            merge_sha := the (row_merge_sha row)\<rparr>
                    else if status st = ''pending'' then st\<lparr>status := ''''\<rparr> else st) = st"
        by (rule trans[OF if_not_P[OF False] if_not_P[OF np]])
      have a: "recover_rows repo_cfgs (row # rs) w = recover_rows repo_cfgs rs w"
        using l False np by (cases "row_merge_sha row") auto
      have d: "\<forall>q. (map_of (states w) q = None) = (map_of (states w) q = None)" by simp
      show ?thesis unfolding e by (intro exI[of _ w] conjI a l d refl)
    qed
  qed
qed

lemma recover_rows_hit:
  assumes "distinct (map (\<lambda>x. (row_repo x, row_num x)) rs)"
    and "row \<in> set rs"
    and "lookup_state (row_repo row) (row_num row) w = Some st"
    and "\<forall>q. map_of (states w) q \<noteq> None \<longrightarrow> map_of repo_cfgs q \<noteq> None"
    and c: "map_of repo_cfgs (row_repo row) = Some cfg"
  shows "\<exists>w'. recover_rows repo_cfgs rs w = (Returned (), w')
        \<and> lookup_state (row_repo row) (row_num row) w'
            = Some (if row_merge_sha row \<noteq> None \<and> row_merge_sha row \<noteq> Some ''''
                    then st\<lparr>build_res := none_dict (if travis_token cfg \<noteq> None
                                                      then [''travis''] else builders cfg),
                            merge_sha := the (row_merge_sha row)\<rparr>
                    else if status st = ''pending'' then st\<lparr>status := ''''\<rparr> else st)
        \<and> (row \<in> set (db w) \<longrightarrow> row \<in> set (db w'))"
  using assms(1-4)
proof (induction rs arbitrary: w)
  case Nil
  then show ?case by simp
next
  case (Cons x rs)
  show ?case
  proof (cases "x = row")
    case True
    have other: "\<forall>y\<in>set rs. \<not> (row_repo y = row_repo row \<and> row_num y = row_num row)"
    proof
      fix y assume "y \<in> set rs"
      then have "(row_repo y, row_num y) \<in> (\<lambda>x. (row_repo x, row_num x)) ` set rs"
        by (rule imageI)
      moreover from Cons.prems(1) True
      have "(row_repo row, row_num row) \<notin> (\<lambda>x. (row_repo x, row_num x)) ` set rs" by simp
      ultimately show "\<not> (row_repo y = row_repo row \<and> row_num y = row_num row)" by metis
    qed
    from recover_step_hit[OF Cons.prems(3) c, of rs] obtain w1 where
      s: "recover_rows repo_cfgs (row # rs) w = recover_rows repo_cfgs rs w1"
      and l: "lookup_state (row_repo row) (row_num row) w1
            = Some (if row_merge_sha row \<noteq> None \<and> row_merge_sha row \<noteq> Some ''''
                    then st\<lparr>build_res := none_dict (if travis_token cfg \<noteq> None
                                                      then [''travis''] else builders cfg),
                            merge_sha := the (row_merge_sha row)\<rparr>
                    else if status st = ''pending'' then st\<lparr>status := ''''\<rparr> else st)"
      and d: "\<forall>q. (map_of (states w1) q = None) = (map_of (states w) q = None)"
      and b: "db w1 = db w"
      by blast
    have ok1: "\<forall>q. map_of (states w1) q \<noteq> None \<longrightarrow> map_of repo_cfgs q \<noteq> None"
      using d Cons.prems(4) by simp
    from recover_rows_other[OF other ok1] obtain w' where
      r: "recover_rows repo_cfgs rs w1 = (Returned (), w')"
      and l': "lookup_state (row_repo row) (row_num row) w'
                = lookup_state (row_repo row) (row_num row) w1"
      and y: "\<forall>y. y \<in> set (db w1) \<and> row_repo y = row_repo row \<and> row_num y = row_num row
                \<longrightarrow> y \<in> set (db w')"
      by blast
    have A: "recover_rows repo_cfgs (x # rs) w = (Returned (), w')"
      unfolding True using s r by (simp only:)
    have B: "row \<in> set (db w) \<longrightarrow> row \<in> set (db w')" using y b by simp
    have C: "lookup_state (row_repo row) (row_num row) w' = Some (if row_merge_sha row \<noteq> None \<and> row_merge_sha row \<noteq> Some ''''
                    then st\<lparr>build_res := none_dict (if travis_token cfg \<noteq> None
                                                      then [''travis''] else builders cfg),
                            merge_sha := the (row_merge_sha row)\<rparr>
                    else if status st = ''pending'' then st\<lparr>status := ''''\<rparr> else st)"
      using l l' by (simp only:)
    show ?thesis by (intro exI[of _ w'] conjI A C B)
  next
    case False
    with Cons.prems(2) have m: "row \<in> set rs" by simp
    have key: "\<not> (row_repo x = row_repo row \<and> row_num x = row_num row)"
    proof -
      from m have "(row_repo row, row_num row) \<in> (\<lambda>x. (row_repo x, row_num x)) ` set rs"
        by (rule imageI)
      moreover from Cons.prems(1)
      have "(row_repo x, row_num x) \<notin> (\<lambda>x. (row_repo x, row_num x)) ` set rs" by simp
      ultimately show ?thesis by metis
    qed
    from recover_step_other[OF key Cons.prems(4), of rs] obtain w1 where
      s: "recover_rows repo_cfgs (x # rs) w = recover_rows repo_cfgs rs w1"
      and l: "lookup_state (row_repo row) (row_num row) w1
                = lookup_state (row_repo row) (row_num row) w"
      and d: "\<forall>q. (map_of (states w1) q = None) = (map_of (states w) q = None)"
      and y: "\<forall>y. y \<in> set (db w) \<and> row_repo y = row_repo row \<and> row_num y = row_num row
                \<longrightarrow> y \<in> set (db w1)"
      by blast
    have ok1: "\<forall>q. map_of (states w1) q \<noteq> None \<longrightarrow> map_of repo_cfgs q \<noteq> None"
      using d Cons.prems(4) by simp
    have dist: "distinct (map (\<lambda>x. (row_repo x, row_num x)) rs)" using Cons.prems(1) by simp
    have l1: "lookup_state (row_repo row) (row_num row) w1 = Some st"
      using l Cons.prems(3) by simp
    from Cons.IH[OF dist m l1 ok1] obtain w' where
      r: "recover_rows repo_cfgs rs w1 = (Returned (), w')"
      and l': "lookup_state (row_repo row) (row_num row) w'
            = Some (if row_merge_sha row \<noteq> None \<and> row_merge_sha row \<noteq> Some ''''
                    then st\<lparr>build_res := none_dict (if travis_token cfg \<noteq> None
                                                      then [''travis''] else builders cfg),
                            merge_sha := the (row_merge_sha row)\<rparr>
                    else if status st = ''pending'' then st\<lparr>status := ''''\<rparr> else st)"
      and y': "row \<in> set (db w1) \<longrightarrow> row \<in> set (db w')"
      by blast
    have A: "recover_rows repo_cfgs (x # rs) w = (Returned (), w')"
      using s r by (simp only:)
    have B: "row \<in> set (db w) \<longrightarrow> row \<in> set (db w')" using y y' by blast
    show ?thesis by (intro exI[of _ w'] conjI A l' B)
  qed
qed


section \<open>The state on entry to the recovery scan\<close>

text \<open>
  The scan of the rows runs on the world that loading the open PRs leaves. Replaying the
  comments of a PR is not \<open>realtime\<close>, so it changes neither the status of the PR nor
  the store; hence after loading the rows are still unique in \<open>(repo, num)\<close>, every
  loaded PR has the status of its row, every repository with states has a configuration,
  and the scan returns normally.
\<close>

subsection \<open>Replaying comments changes neither the status nor the world\<close>

lemma do_word_replay:
  "do_word pf u cfg False word rest (sha, s, v) = (f, sha', s', v') \<Longrightarrow>
     v' = v \<and> status s' = status s"
  by (auto simp: do_word_def Let_def split: if_splits option.splits)

lemma cmd_loop_replay:
  "cmd_loop pf u cfg False ws (ch, sha, s, v) = (ch', sha', s', v') \<Longrightarrow>
     v' = v \<and> status s' = status s"
proof (induction ws arbitrary: ch sha s)
  case Nil
  then show ?case by simp
next
  case (Cons word rest)
  obtain f sha1 s1 v1 where d: "do_word pf u cfg False word rest (sha, s, v) = (f, sha1, s1, v1)"
    by (metis prod_cases4)
  from do_word_replay[OF d] have e: "v1 = v" "status s1 = status s" by simp_all
  from Cons.prems d e have "cmd_loop pf u cfg False rest ((if f then True else ch), sha1, s1, v)
      = (ch', sha', s', v')"
    by simp
  from Cons.IH[OF this] e show ?case by simp
qed

lemma parse_commands_replay:
  "snd (parse_commands pf b u cfg me False sha (s, v)) = (s', v') \<Longrightarrow>
     v' = v \<and> status s' = status s"
proof -
  assume a: "snd (parse_commands pf b u cfg me False sha (s, v)) = (s', v')"
  show ?thesis
  proof (cases "u \<in> set (reviewers cfg) \<and> contains (CHR ''@'' # me) b")
    case False
    with a show ?thesis by (auto simp: parse_commands_def split: if_splits)
  next
    case True
    obtain ch sha1 s1 v1 where
      c: "cmd_loop pf u cfg False (findall_words b) (False, sha, s, v) = (ch, sha1, s1, v1)"
      by (metis prod_cases4)
    with a True have "s' = s1" "v' = v1" by (simp_all add: parse_commands_def)
    with cmd_loop_replay[OF c] show ?thesis by simp
  qed
qed

lemma replay_review_keeps:
  "foldl (replay_review pf me cfg p) (s, v) cs = (s', v') \<Longrightarrow> v' = v \<and> status s' = status s"
proof (induction cs arbitrary: s)
  case Nil
  then show ?case by simp
next
  case (Cons c cs)
  obtain s1 v1 where r: "replay_review pf me cfg p (s, v) c = (s1, v1)" by (metis surj_pair)
  have e: "v1 = v \<and> status s1 = status s"
  proof (cases "c_commit c = p_head_sha p")
    case True
    with r have "snd (parse_commands pf (c_body c) (c_user c) cfg me False (c_commit c) (s, v))
        = (s1, v1)"
      by (simp add: replay_review_def)
    then show ?thesis by (rule parse_commands_replay)
  next
    case False
    with r show ?thesis by (simp add: replay_review_def)
  qed
  from Cons.prems r e have "foldl (replay_review pf me cfg p) (s1, v) cs = (s', v')" by simp
  from Cons.IH[OF this] e show ?case by simp
qed

lemma replay_issue_keeps:
  "foldl (replay_issue pf me cfg) (s, v) cs = (s', v') \<Longrightarrow> v' = v \<and> status s' = status s"
proof (induction cs arbitrary: s)
  case Nil
  then show ?case by simp
next
  case (Cons c cs)
  obtain s1 v1 where r: "replay_issue pf me cfg (s, v) c = (s1, v1)" by (metis surj_pair)
  then have "snd (parse_commands pf (c_body c) (c_user c) cfg me False '''' (s, v)) = (s1, v1)"
    by (simp add: replay_issue_def)
  then have e: "v1 = v \<and> status s1 = status s" by (rule parse_commands_replay)
  from Cons.prems r e have "foldl (replay_issue pf me cfg) (s1, v) cs = (s', v')" by simp
  from Cons.IH[OF this] e show ?case by simp
qed

subsection \<open>Loading keeps the rows and the states in step\<close>

lemma load_status_facts:
  assumes "load_status r p w = (st, w1)"
  shows "states w1 = states w"
    and "set (db w) \<subseteq> set (db w1)"
    and "distinct (map row_key (db w)) \<Longrightarrow> distinct (map row_key (db w1))"
    and "\<exists>x \<in> set (db w1). row_key x = (r, p_number p) \<and> row_status x = st"
proof -
  let ?f = "find (\<lambda>x. row_repo x = r \<and> row_num x = p_number p) (db w)"
  have "states w1 = states w \<and> set (db w) \<subseteq> set (db w1)
      \<and> (distinct (map row_key (db w)) \<longrightarrow> distinct (map row_key (db w1)))
      \<and> (\<exists>x \<in> set (db w1). row_key x = (r, p_number p) \<and> row_status x = st)"
  proof (cases ?f)
    case (Some row)
    with assms have e: "st = row_status row" "w1 = w" by (simp_all add: load_status_def)
    from Some have "row \<in> set (db w)" "row_repo row = r \<and> row_num row = p_number p"
      by (auto simp: find_Some_iff)
    with e show ?thesis by (auto simp: row_key_def)
  next
    case None
    then have n: "\<forall>x \<in> set (db w). row_key x \<noteq> (r, p_number p)"
      by (auto simp: find_None_iff row_key_def)
    from None assms obtain st0 where
      w1: "w1 = w\<lparr>db := db w @ [\<lparr>row_repo = r, row_num = p_number p, row_status = st0,
                                 row_merge_sha = None\<rparr>]\<rparr>"
      and st: "st = st0"
      by (auto simp: load_status_def Let_def)
    from n have "(r, p_number p) \<notin> set (map row_key (db w))" by auto
    then show ?thesis using w1 st by (auto simp: row_key_def)
  qed
  then show "states w1 = states w"
    and "set (db w) \<subseteq> set (db w1)"
    and "distinct (map row_key (db w)) \<Longrightarrow> distinct (map row_key (db w1))"
    and "\<exists>x \<in> set (db w1). row_key x = (r, p_number p) \<and> row_status x = st"
    by blast+
qed

lemma load_pull_form:
  "\<exists>st w1 state. load_status r p w = (st, w1) \<and> status state = st
     \<and> load_pull pf me r cfg w p = store_state r (p_number p) state w1"
proof -
  obtain st w1 where l: "load_status r p w = (st, w1)" by (metis surj_pair)
  define s0 where "s0 = (new_state (p_number p) (p_head_sha p) st r)
                 \<lparr>title := p_title p, body := p_body p,
                  head_ref := p_head_owner p @ '':'' @ p_head_ref p,
                  base_ref := p_base_ref p,
                  assignee := (case p_assignee p of Some a \<Rightarrow> a | None \<Rightarrow> '''')\<rparr>"
  have s0: "status s0 = st" by (simp add: s0_def new_state_def)
  obtain s1 v1 where a: "foldl (replay_review pf me cfg p) (s0, w1) (p_comments p) = (s1, v1)"
    by (metis surj_pair)
  obtain s2 v2 where b: "foldl (replay_issue pf me cfg) (s1, v1) (p_issue_comments p) = (s2, v2)"
    by (metis surj_pair)
  from replay_review_keeps[OF a] have a': "v1 = w1" "status s1 = status s0" by simp_all
  from replay_issue_keeps[OF b] have b': "v2 = v1" "status s2 = status s1" by simp_all
  have "load_pull pf me r cfg w p = store_state r (p_number p) s2 w1"
    using l a b a' b' by (simp add: load_pull_def Let_def s0_def)
  moreover have "status s2 = st" using a' b' s0 by simp
  ultimately show ?thesis using l by blast
qed

lemma lookup_states_cong: "states w1 = states w \<Longrightarrow> lookup_state r n w1 = lookup_state r n w"
  by (simp add: lookup_state_def)

lemma load_pull_inv:
  assumes m: "rows_match w"
  shows "rows_match (load_pull pf me r cfg w p)"
    and "set (db w) \<subseteq> set (db (load_pull pf me r cfg w p))"
    and "(map_of (states (load_pull pf me r cfg w p)) q = None) = (map_of (states w) q = None)"
proof -
  from load_pull_form[of r p w pf me cfg] obtain st w1 state where
    l: "load_status r p w = (st, w1)" and s: "status state = st"
    and e: "load_pull pf me r cfg w p = store_state r (p_number p) state w1"
    by blast
  note F = load_status_facts[OF l]
  have d: "db (store_state r (p_number p) state w1) = db w1" by (simp add: store_state_def)
  show "set (db w) \<subseteq> set (db (load_pull pf me r cfg w p))"
    unfolding e d by (rule F(2))
  show "(map_of (states (load_pull pf me r cfg w p)) q = None) = (map_of (states w) q = None)"
    unfolding e by (simp add: map_of_states_store F(1))
  show "rows_match (load_pull pf me r cfg w p)"
    unfolding e rows_match_def d
  proof (intro conjI allI impI)
    from m show "distinct (map row_key (db w1))" by (intro F(3)) (simp add: rows_match_def)
    fix r' n' st'
    assume a: "lookup_state r' n' (store_state r (p_number p) state w1) = Some st'"
    show "\<exists>x\<in>set (db w1). row_key x = (r', n') \<and> row_status x = status st'"
    proof (cases "r' = r \<and> n' = p_number p \<and> map_of (states w1) r \<noteq> None")
      case True
      with a have "st' = state" by (simp add: lookup_store)
      with F(4) s True show ?thesis by simp
    next
      case False
      with a have "lookup_state r' n' w1 = Some st'"
        by (auto simp: lookup_store split: if_splits)
      then have "lookup_state r' n' w = Some st'" by (simp add: lookup_states_cong[OF F(1)])
      with m obtain x where "x \<in> set (db w)" "row_key x = (r', n')" "row_status x = status st'"
        unfolding rows_match_def by blast
      with F(2) show ?thesis by blast
    qed
  qed
qed

lemma load_pulls_inv:
  assumes "rows_match w"
  shows "rows_match (foldl (load_pull pf me r cfg) w ps)
     \<and> set (db w) \<subseteq> set (db (foldl (load_pull pf me r cfg) w ps))
     \<and> (\<forall>q. (map_of (states (foldl (load_pull pf me r cfg) w ps)) q = None)
              = (map_of (states w) q = None))"
  using assms
proof (induction ps arbitrary: w)
  case Nil
  then show ?case by simp
next
  case (Cons p ps)
  note P = load_pull_inv[OF Cons.prems, of pf me r cfg p]
  from Cons.IH[OF P(1)] P(2) P(3) show ?case by auto
qed

lemma reset_inv:
  assumes "rows_match w"
  shows "rows_match (w\<lparr>states := AList.update r [] (states w)\<rparr>)"
proof -
  have l: "lookup_state r' n' (w\<lparr>states := AList.update r [] (states w)\<rparr>)
      = (if r' = r then None else lookup_state r' n' w)" for r' n'
    by (simp add: lookup_state_def update_conv')
  from assms show ?thesis by (auto simp: rows_match_def l split: if_splits)
qed

lemma load_repo_inv:
  assumes m: "rows_match w" and c: "cfgs_cover w repo_cfgs"
    and e: "load_repo pf me pulls (w, repo_cfgs) rc = (w', repo_cfgs')"
  shows "rows_match w' \<and> set (db w) \<subseteq> set (db w') \<and> cfgs_cover w' repo_cfgs'"
proof -
  obtain r cfg where rc: "rc = (r, cfg)" by (metis surj_pair)
  let ?w0 = "w\<lparr>states := AList.update r [] (states w)\<rparr>"
  from e rc have w': "w' = foldl (load_pull pf me r cfg) ?w0 (pulls r)"
    and c': "repo_cfgs' = AList.update r cfg repo_cfgs"
    by (simp_all add: load_repo_def)
  note L = load_pulls_inv[OF reset_inv[OF m], where pf = pf and me = me and r = r
      and cfg = cfg and ps = "pulls r"]
  have "cfgs_cover w' repo_cfgs'"
    unfolding cfgs_cover_def
  proof (intro allI impI)
    fix q assume "map_of (states w') q \<noteq> None"
    with L w' have "map_of (states ?w0) q \<noteq> None" by simp
    then have "q = r \<or> map_of (states w) q \<noteq> None" by (auto simp: update_conv' split: if_splits)
    with c show "map_of repo_cfgs' q \<noteq> None" by (auto simp: c' update_conv' cfgs_cover_def)
  qed
  with L w' show ?thesis by simp
qed

lemma load_all_inv:
  assumes "rows_match w" and "cfgs_cover w repo_cfgs"
    and "foldl (load_repo pf me pulls) (w, repo_cfgs) cfg_repo = (w', repo_cfgs')"
  shows "rows_match w' \<and> set (db w) \<subseteq> set (db w') \<and> cfgs_cover w' repo_cfgs'"
  using assms
proof (induction cfg_repo arbitrary: w repo_cfgs)
  case Nil
  then show ?case by simp
next
  case (Cons rc rest)
  obtain w1 c1 where s: "load_repo pf me pulls (w, repo_cfgs) rc = (w1, c1)" by (metis surj_pair)
  note S = load_repo_inv[OF Cons.prems(1,2) s]
  from Cons.prems(3) s have "foldl (load_repo pf me pulls) (w1, c1) rest = (w', repo_cfgs')"
    by simp
  from Cons.IH[OF _ _ this] S show ?case by blast
qed

subsection \<open>The scan returns and keeps the set of PRs\<close>

lemma recover_step_any:
  assumes ok: "cfgs_cover w repo_cfgs"
  shows "\<exists>w1. recover_rows repo_cfgs (x # rs) w = recover_rows repo_cfgs rs w1
        \<and> cfgs_cover w1 repo_cfgs
        \<and> (\<forall>r k. (lookup_state r k w1 = None) = (lookup_state r k w = None))"
proof (cases "lookup_state (row_repo x) (row_num x) w")
  case None
  let ?w1 = "w\<lparr>db := db_delete (row_repo x) (row_num x) (db w)\<rparr>"
  have "recover_rows repo_cfgs (x # rs) w = recover_rows repo_cfgs rs ?w1"
    using None by simp
  moreover have "cfgs_cover ?w1 repo_cfgs" using ok by (simp add: cfgs_cover_def)
  moreover have "\<forall>r k. (lookup_state r k ?w1 = None) = (lookup_state r k w = None)"
    by (simp add: lookup_state_def)
  ultimately show ?thesis by blast
next
  case (Some st)
  from lookup_some_states[OF Some] ok obtain cfg where cfg: "map_of repo_cfgs (row_repo x) = Some cfg"
    by (auto simp: cfgs_cover_def)
  have keep: "cfgs_cover (store_state (row_repo x) (row_num x) s' w) repo_cfgs
      \<and> (\<forall>r k. (lookup_state r k (store_state (row_repo x) (row_num x) s' w) = None)
                 = (lookup_state r k w = None))" for s'
    using ok Some by (auto simp: cfgs_cover_def states_none_store lookup_store)
  show ?thesis
  proof (cases "row_merge_sha x \<noteq> None \<and> row_merge_sha x \<noteq> Some ''''")
    case True
    let ?w1 = "store_state (row_repo x) (row_num x)
      (st\<lparr>build_res := none_dict (if travis_token cfg \<noteq> None then [''travis''] else builders cfg),
          merge_sha := the (row_merge_sha x)\<rparr>) w"
    have "recover_rows repo_cfgs (x # rs) w = recover_rows repo_cfgs rs ?w1"
      using Some True cfg by (cases "row_merge_sha x") (auto simp: Let_def)
    with keep show ?thesis by blast
  next
    case False
    show ?thesis
    proof (cases "status st = ''pending''")
      case True
      let ?w1 = "store_state (row_repo x) (row_num x) (st\<lparr>status := ''''\<rparr>) w"
      have "recover_rows repo_cfgs (x # rs) w = recover_rows repo_cfgs rs ?w1"
        using Some False True by (cases "row_merge_sha x") auto
      with keep show ?thesis by blast
    next
      case np: False
      have "recover_rows repo_cfgs (x # rs) w = recover_rows repo_cfgs rs w"
        using Some False np by (cases "row_merge_sha x") auto
      with ok show ?thesis by blast
    qed
  qed
qed

lemma recover_rows_returns:
  assumes "cfgs_cover w repo_cfgs"
  shows "\<exists>w'. recover_rows repo_cfgs rs w = (Returned (), w')
        \<and> (\<forall>r k. (lookup_state r k w' = None) = (lookup_state r k w = None))"
  using assms
proof (induction rs arbitrary: w)
  case Nil
  show ?case by simp
next
  case (Cons x rs)
  from recover_step_any[OF Cons.prems, of x rs] obtain w1 where
    s: "recover_rows repo_cfgs (x # rs) w = recover_rows repo_cfgs rs w1"
    and c: "cfgs_cover w1 repo_cfgs"
    and k: "\<forall>r k. (lookup_state r k w1 = None) = (lookup_state r k w = None)"
    by blast
  from Cons.IH[OF c] obtain w' where
    "recover_rows repo_cfgs rs w1 = (Returned (), w')"
    "\<forall>r k. (lookup_state r k w' = None) = (lookup_state r k w1 = None)"
    by blast
  with k have "recover_rows repo_cfgs rs w1 = (Returned (), w')
        \<and> (\<forall>r k. (lookup_state r k w' = None) = (lookup_state r k w = None))"
    by simp
  then show ?case unfolding s by (rule exI)
qed

subsection \<open>From the rows found in the store\<close>

lemma rows_match_key:
  assumes m: "rows_match w" and x: "x \<in> set (db w)"
    and l: "lookup_state (row_repo x) (row_num x) w = Some st"
  shows "status st = row_status x"
proof -
  from m l obtain y where y: "y \<in> set (db w)" "row_key y = (row_repo x, row_num x)"
    "row_status y = status st"
    unfolding rows_match_def by blast
  from m have "inj_on row_key (set (db w))"
    by (simp add: rows_match_def distinct_map)
  with x y(1,2) have "y = x" by (auto simp: inj_on_def row_key_def)
  with y(3) show ?thesis by simp
qed

lemma load_entry_state:
  assumes d: "distinct (map (\<lambda>x. (row_repo x, row_num x)) rows)"
    and e: "foldl (load_repo pf me pulls)
              (\<lparr>states = [], buildbot_slots = '''', db = rows, effects = []\<rparr>, []) cfg_repo
            = (w, repo_cfgs)"
  shows "distinct (map (\<lambda>x. (row_repo x, row_num x)) (db w))"
    and "set rows \<subseteq> set (db w)"
    and "\<forall>x \<in> set (db w). \<forall>st. lookup_state (row_repo x) (row_num x) w = Some st
            \<longrightarrow> status st = row_status x"
    and "\<forall>q. map_of (states w) q \<noteq> None \<longrightarrow> map_of repo_cfgs q \<noteq> None"
proof -
  let ?w0 = "\<lparr>states = [], buildbot_slots = '''', db = rows, effects = []\<rparr>"
  have k: "row_key = (\<lambda>x. (row_repo x, row_num x))" by (rule ext) (simp add: row_key_def)
  have m0: "rows_match ?w0" using d by (simp add: rows_match_def lookup_state_def k)
  have c0: "cfgs_cover ?w0 []" by (simp add: cfgs_cover_def)
  from load_all_inv[OF m0 c0 e]
  have m: "rows_match w" and s: "set rows \<subseteq> set (db w)" and c: "cfgs_cover w repo_cfgs"
    by simp_all
  from m show "distinct (map (\<lambda>x. (row_repo x, row_num x)) (db w))"
    by (simp add: rows_match_def k)
  from s show "set rows \<subseteq> set (db w)" .
  from m show "\<forall>x \<in> set (db w). \<forall>st. lookup_state (row_repo x) (row_num x) w = Some st
            \<longrightarrow> status st = row_status x"
    by (blast intro: rows_match_key)
  from c show "\<forall>q. map_of (states w) q \<noteq> None \<longrightarrow> map_of repo_cfgs q \<noteq> None"
    by (simp add: cfgs_cover_def)
qed

lemma main_startup_returns:
  assumes "distinct (map (\<lambda>x. (row_repo x, row_num x)) rows)"
  shows "\<exists>w' repo_cfgs. main_startup pf me pulls cfg_repo rows = (Returned (), w', repo_cfgs)"
proof -
  obtain w repo_cfgs where e: "foldl (load_repo pf me pulls)
              (\<lparr>states = [], buildbot_slots = '''', db = rows, effects = []\<rparr>, []) cfg_repo
            = (w, repo_cfgs)"
    by (metis surj_pair)
  from load_entry_state(4)[OF assms e] have "cfgs_cover w repo_cfgs"
    by (simp add: cfgs_cover_def)
  from recover_rows_returns[OF this, of "db w"] obtain w' where
    "recover repo_cfgs w = (Returned (), w')"
    by (auto simp: recover_def)
  with e show ?thesis by (simp add: main_startup_def)
qed


section \<open>Queue ordering\<close>

text \<open>
  C3. For every PR state, \<open>sort_key()\<close> is the list of the status bucket of the derived
  status (\<open>success\<close> 0, \<open>pending\<close> 1, \<open>approved\<close> 2, empty 3, \<open>error\<close> 4, \<open>failure\<close> 5,
  anything else -1), 1 if \<open>mergeable\<close> is known to be false and 0 otherwise, 1 if
  \<open>approved_by\<close> is empty and 0 otherwise, 1 if \<open>rollup\<close> and 0 otherwise, the negated
  priority, and the PR number. The comparison of two PRs is the lexicographic order on
  this key, the smaller key first, so that two PRs that agree on the first five
  components are ordered by their numbers.
\<close>

theorem sort_key_lexicographic:
  "sort_key_pr s =
     [status_bucket (effective_status s),
      (if mergeable s = Some False then 1 else 0),
      (if approved_by s = '''' then 1 else 0),
      (if rollup s then 1 else 0),
      - priority s,
      num s]
   \<and> (state_lt a b \<longleftrightarrow> (sort_key_pr a, sort_key_pr b) \<in> lexord {(x, y). x < y})
   \<and> (take 5 (sort_key_pr a) = take 5 (sort_key_pr b) \<longrightarrow> (state_lt a b \<longleftrightarrow> num a < num b))"
proof -
  have b: "dict_get STATUS_TO_PRIORITY x (- 1) = status_bucket x" for x
    by (simp add: dict_get_def STATUS_TO_PRIORITY_def status_bucket_def)
  have g: "get_status s = effective_status s"
    by (simp add: get_status_def effective_status_def)
  have k: "sort_key_pr s =
     [status_bucket (effective_status s),
      (if mergeable s = Some False then 1 else 0),
      (if approved_by s = '''' then 1 else 0),
      (if rollup s then 1 else 0),
      - priority s,
      num s]"
    by (simp add: sort_key_pr_def b g)
  have l: "state_lt a b \<longleftrightarrow> (sort_key_pr a, sort_key_pr b) \<in> lexord {(x, y). x < y}"
    by (simp add: state_lt_def list_lt_lexord)
  have t: "state_lt a b \<longleftrightarrow> num a < num b"
    if "take 5 (sort_key_pr a) = take 5 (sort_key_pr b)"
    using that by (simp add: state_lt_def sort_key_pr_def)
  from k l t show ?thesis by blast
qed

theorem sort_key_lexicographic_witness:
  "take 5 (sort_key_pr pr1) = take 5 (sort_key_pr pr2) \<and> state_lt pr1 pr2
   \<and> \<not> state_lt pr2 pr1 \<and> sort_key_pr pr2 = [3, 0, 1, 0, 0, 2]"
  using sort_key_lexicographic [of pr2 pr1 pr2] sort_key_lexicographic [of pr2 pr2 pr1]
  by (simp add: pr1_def pr2_def new_state_def sort_key_pr_def get_status_def
      effective_status_def status_bucket_def)

section \<open>Approval by commit SHA\<close>



section \<open>Head advance\<close>

text \<open>
  C6. \<open>head_advanced(new_sha)\<close> sets \<open>head_sha\<close> to \<open>new_sha\<close> and in the same step
  resets \<open>approved_by\<close>, \<open>status\<close> and \<open>merge_sha\<close> to the empty string, \<open>build_res\<close> to
  the empty dictionary, \<open>try_\<close> to false and \<open>mergeable\<close> to unknown, and it persists
  the empty status: afterwards the store holds for the PR exactly one row, with the empty
  status.
\<close>

theorem head_advanced_resets:
  "(let (state', w') = head_advanced new_sha True (state, w)
    in head_sha state' = new_sha \<and> approved_by state' = '''' \<and> status state' = ''''
       \<and> merge_sha state' = '''' \<and> build_res state' = [] \<and> \<not> try' state'
       \<and> mergeable state' = None
       \<and> row_of (repo state') (num state') (db w')
           = [\<lparr>row_repo = repo state, row_num = num state, row_status = '''',
                row_merge_sha = None\<rparr>])"
  by (simp add: head_advanced_def set_status_def db_insert_or_replace_def row_of_def Let_def)

section \<open>The gate and the result of the parser\<close>

text \<open>
  C9. If the author of a comment is not in the reviewer list of the repository, or the
  bot's own name preceded by \<open>@\<close> does not occur verbatim in the body, then
  \<open>parse_commands\<close> returns false and leaves the PR state, the store and the platform
  untouched.
\<close>

theorem parse_commands_gate:
  "username \<notin> set (reviewers cfg) \<or> \<not> sublist (CHR ''@'' # my_username) body' \<Longrightarrow>
   parse_commands pf body' username cfg my_username realtime sha (state, w) = (False, state, w)"
  by (auto simp: parse_commands_def contains_sublist)

theorem parse_commands_gate_witness:
  "''eve'' \<notin> set (reviewers cfg_buildbot)
   \<and> parse_commands pf_ok ''@bot r+ aaaa'' ''eve'' cfg_buildbot ''bot'' True '''' (pr1, w_two)
       = (False, pr1, w_two)"
  using parse_commands_gate [of "''eve''" cfg_buildbot "''bot''" "''@bot r+ aaaa''" pf_ok True "''''" pr1 w_two]
  by (simp add: cfg_buildbot_def)

text \<open>
  C10. \<open>parse_commands\<close> returns true exactly when the comment passes the gate (the
  author is a reviewer and the body mentions the bot) and at least one of its words is a
  recognized command token, whether or not the command modifies a field of the PR: so for
  \<open>r+\<close> with a SHA that does not match, for \<open>p=\<close> with a value that is no integer, and
  for \<open>force\<close>. It returns false only when the gate rejects the comment or no word is
  recognized.
\<close>

theorem parse_commands_changed:
  "fst (parse_commands pf body' username cfg my_username realtime sha (state, w)) \<longleftrightarrow>
     username \<in> set (reviewers cfg) \<and> sublist (CHR ''@'' # my_username) body'
     \<and> (\<exists>word \<in> set (findall_words body'). recognized realtime word)"
proof -
  obtain ch sha' state' w' where
    c: "cmd_loop pf username cfg realtime (findall_words body') (False, sha, state, w)
          = (ch, sha', state', w')"
    by (metis prod_cases4)
  have "ch = (\<exists>word \<in> set (findall_words body'). recognized realtime word)"
    using cmd_loop_changed[of pf username cfg realtime "findall_words body'" False sha state w] c
    by simp
  then show ?thesis
    by (simp add: parse_commands_def c contains_sublist)
qed

theorem parse_commands_changed_witness:
  "fst (parse_commands pf_ok ''@bot p=abc'' ''bob'' cfg_buildbot ''bot'' False '''' (pr1, w_two))
   \<and> parse_commands pf_ok ''@bot p=abc'' ''bob'' cfg_buildbot ''bot'' False '''' (pr1, w_two)
       = (True, pr1, w_two)
   \<and> parse_commands pf_ok ''@bot r+ zzzz'' ''bob'' cfg_buildbot ''bot'' False '''' (pr1, w_two)
       = (True, pr1, w_two)
   \<and> fst (parse_commands pf_ok ''@bot force'' ''bob'' cfg_buildbot ''bot'' True '''' (pr1, w_two))
   \<and> fst (snd (parse_commands pf_ok ''@bot force'' ''bob'' cfg_buildbot ''bot'' True ''''
                  (pr1, w_two))) = pr1
   \<and> parse_commands pf_ok ''@bot force'' ''bob'' cfg_buildbot ''bot'' False '''' (pr1, w_two)
       = (False, pr1, w_two)
   \<and> parse_commands pf_ok ''@bot thanks'' ''bob'' cfg_buildbot ''bot'' True '''' (pr1, w_two)
       = (False, pr1, w_two)"
proof -
  have g: "''bob'' \<in> set (reviewers cfg_buildbot)" by (simp add: cfg_buildbot_def)
  have c: "sublist (CHR ''@'' # ''bot'') ''@bot p=abc''"
    unfolding contains_sublist[symmetric] by code_simp
  have w: "findall_words ''@bot p=abc'' = [''@bot'', ''p=abc'']" by code_simp
  have r: "recognized False ''p=abc''" by (simp add: recognized_def)
  from parse_commands_changed [of pf_ok "''@bot p=abc''" "''bob''" cfg_buildbot "''bot''" False
      "''''" pr1 w_two] g c w r
  have 1: "fst (parse_commands pf_ok ''@bot p=abc'' ''bob'' cfg_buildbot ''bot'' False ''''
                  (pr1, w_two))"
    by simp
  have 2: "parse_commands pf_ok ''@bot p=abc'' ''bob'' cfg_buildbot ''bot'' False '''' (pr1, w_two)
       = (True, pr1, w_two)
   \<and> parse_commands pf_ok ''@bot r+ zzzz'' ''bob'' cfg_buildbot ''bot'' False '''' (pr1, w_two)
       = (True, pr1, w_two)
   \<and> fst (parse_commands pf_ok ''@bot force'' ''bob'' cfg_buildbot ''bot'' True '''' (pr1, w_two))
   \<and> fst (snd (parse_commands pf_ok ''@bot force'' ''bob'' cfg_buildbot ''bot'' True ''''
                  (pr1, w_two))) = pr1
   \<and> parse_commands pf_ok ''@bot force'' ''bob'' cfg_buildbot ''bot'' False '''' (pr1, w_two)
       = (False, pr1, w_two)
   \<and> parse_commands pf_ok ''@bot thanks'' ''bob'' cfg_buildbot ''bot'' True '''' (pr1, w_two)
       = (False, pr1, w_two)"
    by code_simp
  from 1 2 show ?thesis by (rule conjI)
qed


section \<open>The build slot\<close>

text \<open>
  C2, as the code has it. In \<open>start_build\<close> a busy build slot declines every build, try
  or gated: the call returns true at once and changes neither the PR nor the world. A
  build that is started from a free slot, try or gated, is the build of the commit \<open>m\<close>
  that the merge returned: \<open>merge_sha\<close> is \<open>m\<close>, the status is \<open>pending\<close>, \<open>try_\<close> is
  kept, and the slot is claimed with \<open>m\<close> when no travis token is configured; with a
  travis token the slot stays empty. From a free slot the build is started whenever the
  head is current, the repository is configured, the merge succeeds and the build branch
  can be moved.
\<close>

theorem start_build_slot:
  "(buildbot_slots w \<noteq> '''' \<longrightarrow>
      start_build pf repo_cfgs rname (state, w) = (Returned True, state, w))
   \<and> (buildbot_slots w = '''' \<and> map_of repo_cfgs rname = Some cfg
        \<and> start_build pf repo_cfgs rname (state, w) = (Returned True, state', w') \<longrightarrow>
        (\<exists>m. merge_result pf rname (tmp_branch cfg) (head_sha state) (merge_msg state)
                = MergeCommit m
           \<and> merge_sha state' = m \<and> status state' = ''pending'' \<and> try' state' = try' state
           \<and> buildbot_slots w' = (if travis_token cfg = None then m else '''')))
   \<and> (buildbot_slots w = '''' \<and> head_sha state = pull_head_sha pf rname (num state)
        \<and> map_of repo_cfgs rname = Some cfg
        \<and> merge_result pf rname (tmp_branch cfg) (head_sha state) (merge_msg state)
            = MergeCommit m0
        \<and> set_ref_error pf rname
             (''heads/'' @ (if travis_token cfg \<noteq> None then buildbot_branch cfg
                            else if try' state then buildbot_try_branch cfg
                            else buildbot_branch cfg)) = None \<longrightarrow>
        fst (start_build pf repo_cfgs rname (state, w)) = Returned True)"
proof -
  have a: "start_build pf repo_cfgs rname (state, w) = (Returned True, state, w)"
    if "buildbot_slots w \<noteq> ''''"
    using that by (simp add: start_build_def)
  from a start_build_started[of pf repo_cfgs rname state w state' w' cfg]
    start_build_starts[of w state pf rname repo_cfgs cfg m0]
  show ?thesis by blast
qed

theorem start_build_slot_witness:
  "buildbot_slots (w_two\<lparr>buildbot_slots := ''mmmm0000''\<rparr>) \<noteq> ''''
   \<and> start_build pf_ok [(''r'', cfg_buildbot)] ''r'' (pr1, w_two\<lparr>buildbot_slots := ''mmmm0000''\<rparr>)
       = (Returned True, pr1, w_two\<lparr>buildbot_slots := ''mmmm0000''\<rparr>)
   \<and> buildbot_slots w_two = '''' \<and> map_of [(''r'', cfg_travis)] ''r'' = Some cfg_travis
   \<and> fst (start_build pf_ok [(''r'', cfg_travis)] ''r'' (pr1, w_two)) = Returned True
   \<and> status (fst (snd (start_build pf_ok [(''r'', cfg_travis)] ''r'' (pr1, w_two)))) = ''pending''
   \<and> merge_sha (fst (snd (start_build pf_ok [(''r'', cfg_travis)] ''r'' (pr1, w_two))))
       = ''maaaa1111''
   \<and> buildbot_slots (snd (snd (start_build pf_ok [(''r'', cfg_travis)] ''r'' (pr1, w_two)))) = ''''
   \<and> map_of [(''r'', cfg_buildbot)] ''r'' = Some cfg_buildbot
   \<and> fst (start_build pf_ok [(''r'', cfg_buildbot)] ''r'' (pr1, w_two)) = Returned True
   \<and> status (fst (snd (start_build pf_ok [(''r'', cfg_buildbot)] ''r'' (pr1, w_two)))) = ''pending''
   \<and> \<not> try' (fst (snd (start_build pf_ok [(''r'', cfg_buildbot)] ''r'' (pr1, w_two))))
   \<and> merge_sha (fst (snd (start_build pf_ok [(''r'', cfg_buildbot)] ''r'' (pr1, w_two))))
       = ''maaaa1111''
   \<and> buildbot_slots (snd (snd (start_build pf_ok [(''r'', cfg_buildbot)] ''r'' (pr1, w_two))))
       = ''maaaa1111''"
proof -
  let ?T = "start_build pf_ok [(''r'', cfg_travis)] ''r'' (pr1, w_two)"
  let ?B = "start_build pf_ok [(''r'', cfg_buildbot)] ''r'' (pr1, w_two)"
  have s: "buildbot_slots (w_two\<lparr>buildbot_slots := ''mmmm0000''\<rparr>) \<noteq> ''''" by simp
  have f: "buildbot_slots w_two = ''''" by (simp add: w_two_def)
  have ct: "map_of [(''r'', cfg_travis)] ''r'' = Some cfg_travis"
    and cb: "map_of [(''r'', cfg_buildbot)] ''r'' = Some cfg_buildbot"
    by simp_all
  have h: "head_sha pr1 = pull_head_sha pf_ok ''r'' (num pr1)"
    by (simp add: pr1_def new_state_def pf_ok_def)
  have m: "merge_result pf_ok ''r'' b (head_sha pr1) (merge_msg pr1) = MergeCommit ''maaaa1111''"
    for b
    by (simp add: pf_ok_def pr1_def new_state_def)
  have n: "set_ref_error pf_ok ''r'' b = None" for b by (simp add: pf_ok_def)
  have t: "travis_token cfg_travis \<noteq> None" "travis_token cfg_buildbot = None"
    "\<not> try' pr1"
    by (simp_all add: cfg_travis_def cfg_buildbot_def pr1_def new_state_def)
  note A = start_build_slot [where w = "w_two\<lparr>buildbot_slots := ''mmmm0000''\<rparr>" and pf = pf_ok
      and repo_cfgs = "[(''r'', cfg_buildbot)]" and rname = "''r''" and state = pr1]
  from A[THEN conjunct1, THEN mp, OF s]
  have 1: "start_build pf_ok [(''r'', cfg_buildbot)] ''r'' (pr1, w_two\<lparr>buildbot_slots := ''mmmm0000''\<rparr>)
       = (Returned True, pr1, w_two\<lparr>buildbot_slots := ''mmmm0000''\<rparr>)" .
  note T = start_build_slot [where w = w_two and pf = pf_ok and repo_cfgs = "[(''r'', cfg_travis)]"
      and rname = "''r''" and cfg = cfg_travis and state = pr1 and ?m0.0 = "''maaaa1111''"
      and state' = "fst (snd ?T)" and w' = "snd (snd ?T)"]
  from T[THEN conjunct2, THEN conjunct2, THEN mp] f h ct m n
  have rt: "fst ?T = Returned True" by simp
  then have et: "?T = (Returned True, fst (snd ?T), snd (snd ?T))"
    by (metis prod.collapse)
  from T[THEN conjunct2, THEN conjunct1, THEN mp, OF conjI[OF f conjI[OF ct et]]] m t
  have 2: "status (fst (snd ?T)) = ''pending''" "merge_sha (fst (snd ?T)) = ''maaaa1111''"
    "buildbot_slots (snd (snd ?T)) = ''''"
    by auto
  note B = start_build_slot [where w = w_two and pf = pf_ok and repo_cfgs = "[(''r'', cfg_buildbot)]"
      and rname = "''r''" and cfg = cfg_buildbot and state = pr1 and ?m0.0 = "''maaaa1111''"
      and state' = "fst (snd ?B)" and w' = "snd (snd ?B)"]
  from B[THEN conjunct2, THEN conjunct2, THEN mp] f h cb m n
  have rb: "fst ?B = Returned True" by simp
  then have eb: "?B = (Returned True, fst (snd ?B), snd (snd ?B))"
    by (metis prod.collapse)
  from B[THEN conjunct2, THEN conjunct1, THEN mp, OF conjI[OF f conjI[OF cb eb]]] m t
  have 3: "status (fst (snd ?B)) = ''pending''" "\<not> try' (fst (snd ?B))"
    "merge_sha (fst (snd ?B)) = ''maaaa1111''"
    "buildbot_slots (snd (snd ?B)) = ''maaaa1111''"
    by auto
  show ?thesis
    by (intro conjI) (rule s 1 f ct rt 2 cb rb 3)+
qed

text \<open>
  C2, as the claim states it, fails. With the slot occupied a try build does not proceed:
  the call returns true and the PR is as before, its status still empty. And a try build
  that is started from a free slot (no travis token) does not leave the slot unchanged: the
  slot holds the new merge commit.
\<close>

theorem start_build_try_counterexample:
  "start_build pf_ok [(''r'', cfg_buildbot)] ''r''
       (pr1\<lparr>try' := True\<rparr>, w_two\<lparr>buildbot_slots := ''mmmm0000''\<rparr>)
     = (Returned True, pr1\<lparr>try' := True\<rparr>, w_two\<lparr>buildbot_slots := ''mmmm0000''\<rparr>)
   \<and> status (pr1\<lparr>try' := True\<rparr>) = ''''
   \<and> fst (start_build pf_ok [(''r'', cfg_buildbot)] ''r'' (pr1\<lparr>try' := True\<rparr>, w_two))
       = Returned True
   \<and> status (fst (snd (start_build pf_ok [(''r'', cfg_buildbot)] ''r''
                          (pr1\<lparr>try' := True\<rparr>, w_two)))) = ''pending''
   \<and> try' (fst (snd (start_build pf_ok [(''r'', cfg_buildbot)] ''r''
                        (pr1\<lparr>try' := True\<rparr>, w_two))))
   \<and> buildbot_slots w_two = ''''
   \<and> buildbot_slots (snd (snd (start_build pf_ok [(''r'', cfg_buildbot)] ''r''
                                  (pr1\<lparr>try' := True\<rparr>, w_two)))) = ''maaaa1111''"
  by code_simp

section \<open>One tick of the scheduler\<close>




section \<open>One gated build at a time\<close>

text \<open>
  C1 fails on the code. In a repository that is built by travis, a reviewer approves PR 1,
  whose gated build starts; asks for a try build of PR 2, which starts as well, the slot
  being free; and withdraws the try with \<open>try-\<close>, which clears \<open>try_\<close> and leaves the
  status \<open>pending\<close>. Both PRs of the repository are then pending with \<open>try_\<close> false.
\<close>

theorem two_gated_builds_pending:
  "map_option (\<lambda>s. (status s, try' s))
       (lookup_state ''r'' 1
          (run_events pf_ok [(''r'', cfg_travis)] [''r''] ''bot'' evs_two_gated w_two))
     = Some (''pending'', False)
   \<and> map_option (\<lambda>s. (status s, try' s))
       (lookup_state ''r'' 2
          (run_events pf_ok [(''r'', cfg_travis)] [''r''] ''bot'' evs_two_gated w_two))
     = Some (''pending'', False)"
  by code_simp


section \<open>Idempotence of the parser\<close>

text \<open>
  C7. \<open>parse_commands\<close> is idempotent on the PR: for every comment body, author,
  configuration, SHA context and \<open>realtime\<close> flag, parsing the comment again on the state
  that the first parse left, in whatever world, gives that same state. All fields of the
  PR are equal, \<open>approved_by\<close>, \<open>priority\<close>, \<open>rollup\<close>, \<open>try_\<close>, \<open>status\<close>,
  \<open>merge_sha\<close> and \<open>build_res\<close> among them; the comments posted and the calls to the CI
  master are in the world and are not compared.
\<close>

theorem parse_commands_idempotent:
  "fst (snd (parse_commands pf body' username cfg my_username realtime sha
               (fst (snd (parse_commands pf body' username cfg my_username realtime sha
                            (state, w))), w2)))
   = fst (snd (parse_commands pf body' username cfg my_username realtime sha (state, w)))"
proof (cases "username \<in> set (reviewers cfg) \<and> contains (CHR ''@'' # my_username) body'")
  case False
  then show ?thesis by (auto simp: parse_commands_def)
next
  case True
  define run where "run = (\<lambda>s v. fst (snd (snd (cmd_loop pf username cfg realtime
    (findall_words body') (False, sha, s, v)))))"
  have p: "fst (snd (parse_commands pf body' username cfg my_username realtime sha (s, v)))
      = run s v" for s v
    using True by (simp add: parse_commands_def run_def split: prod.splits)
  have "same_writes state state (run state w) (run state w)"
    unfolding run_def by (rule cmd_loop_writes) simp
  then have h: "head_sha state = head_sha (run state w)"
    by (simp add: same_writes_def unwritten_def)
  have "same_writes state (run state w) (run state w) (run (run state w) w2)"
    unfolding run_def by (rule cmd_loop_writes) (use h in \<open>simp add: run_def\<close>)
  then have "run (run state w) w2 = run state w" by (rule same_writes_fix)
  then show ?thesis by (simp add: p)
qed


section \<open>Recovery on startup\<close>

text \<open>
  C8. On startup the rows of the store are scanned once the states of the open PRs are
  loaded, each with the status of its row. For a row with status \<open>pending\<close> of an open PR:
  if its \<open>merge_sha\<close> is empty (\<open>NULL\<close> or the empty string), the PR is downgraded to the
  empty status and is otherwise as loaded; if its \<open>merge_sha\<close> is not empty, the row stays
  in the store, the PR stays \<open>pending\<close> with that \<open>merge_sha\<close>, and its \<open>build_res\<close> has
  exactly one entry, pending, for each configured builder, which is the single builder
  \<open>travis\<close> when a travis token is configured. The scan returns normally. The rows are
  unique in \<open>(repo, num)\<close>, and every repository with states has a configuration.
\<close>

theorem recover_pending:
  assumes "distinct (map (\<lambda>x. (row_repo x, row_num x)) (db w))"
    and "row \<in> set (db w)"
    and "row_status row = ''pending''"
    and "lookup_state (row_repo row) (row_num row) w = Some st"
    and "status st = row_status row"
    and "\<forall>q. map_of (states w) q \<noteq> None \<longrightarrow> map_of repo_cfgs q \<noteq> None"
    and "map_of repo_cfgs (row_repo row) = Some cfg"
  shows "\<exists>w' st'. recover repo_cfgs w = (Returned (), w')
     \<and> lookup_state (row_repo row) (row_num row) w' = Some st'
     \<and> (row_merge_sha row = None \<or> row_merge_sha row = Some '''' \<longrightarrow> st' = st\<lparr>status := ''''\<rparr>)
     \<and> (row_merge_sha row \<noteq> None \<and> row_merge_sha row \<noteq> Some '''' \<longrightarrow>
          row \<in> set (db w') \<and> status st' = ''pending''
          \<and> merge_sha st' = the (row_merge_sha row)
          \<and> (\<forall>b. map_of (build_res st') b
                  = (if b \<in> set (if travis_token cfg \<noteq> None then [''travis'']
                                  else builders cfg)
                     then Some None else None))
          \<and> distinct (map fst (build_res st')))"
proof -
  let ?bs = "if travis_token cfg \<noteq> None then [''travis''] else builders cfg"
  let ?st' = "if row_merge_sha row \<noteq> None \<and> row_merge_sha row \<noteq> Some ''''
              then st\<lparr>build_res := none_dict ?bs, merge_sha := the (row_merge_sha row)\<rparr>
              else if status st = ''pending'' then st\<lparr>status := ''''\<rparr> else st"
  from recover_rows_hit[OF assms(1,2,4,6,7)] obtain w' where
    r: "recover_rows repo_cfgs (db w) w = (Returned (), w')"
    and l: "lookup_state (row_repo row) (row_num row) w' = Some ?st'"
    and m: "row \<in> set (db w) \<longrightarrow> row \<in> set (db w')"
    by blast
  have p: "status st = ''pending''" using assms(3,5) by simp
  have a: "recover repo_cfgs w = (Returned (), w')" using r by (simp add: recover_def)
  have b: "row_merge_sha row = None \<or> row_merge_sha row = Some '''' \<longrightarrow> ?st' = st\<lparr>status := ''''\<rparr>"
    using p by auto
  have c: "row_merge_sha row \<noteq> None \<and> row_merge_sha row \<noteq> Some '''' \<longrightarrow>
          row \<in> set (db w') \<and> status ?st' = ''pending''
          \<and> merge_sha ?st' = the (row_merge_sha row)
          \<and> (\<forall>b. map_of (build_res ?st') b = (if b \<in> set ?bs then Some None else None))
          \<and> distinct (map fst (build_res ?st'))"
    using p m assms(2) by (simp add: none_dict_pending)
  show ?thesis by (intro exI[of _ w'] exI[of _ ?st'] conjI a l b c)
qed

theorem recover_pending_witness:
  "distinct (map (\<lambda>x. (row_repo x, row_num x)) (db w_restart))
   \<and> row7 \<in> set (db w_restart) \<and> row8 \<in> set (db w_restart)
   \<and> row_status row7 = ''pending'' \<and> row_status row8 = ''pending''
   \<and> lookup_state ''r'' 7 w_restart = Some pr7 \<and> lookup_state ''r'' 8 w_restart = Some pr8
   \<and> status pr7 = row_status row7 \<and> status pr8 = row_status row8
   \<and> map_of [(''r'', cfg_buildbot)] ''r'' = Some cfg_buildbot
   \<and> (\<exists>w'. recover [(''r'', cfg_buildbot)] w_restart = (Returned (), w')
         \<and> lookup_state ''r'' 8 w' = Some (pr8\<lparr>status := ''''\<rparr>))
   \<and> (\<exists>w' st'. recover [(''r'', cfg_buildbot)] w_restart = (Returned (), w')
         \<and> lookup_state ''r'' 7 w' = Some st' \<and> row7 \<in> set (db w')
         \<and> status st' = ''pending'' \<and> merge_sha st' = ''mmmm7777''
         \<and> map_of (build_res st') ''linux'' = Some None
         \<and> map_of (build_res st') ''travis'' = None)"
proof -
  have d: "distinct (map (\<lambda>x. (row_repo x, row_num x)) (db w_restart))"
    by (simp add: w_restart_def row7_def row8_def)
  have m: "row7 \<in> set (db w_restart)" "row8 \<in> set (db w_restart)"
    by (simp_all add: w_restart_def)
  have p: "row_status row7 = ''pending''" "row_status row8 = ''pending''"
    by (simp_all add: row7_def row8_def)
  have l: "lookup_state ''r'' 7 w_restart = Some pr7" "lookup_state ''r'' 8 w_restart = Some pr8"
    by (simp_all add: lookup_state_def w_restart_def)
  have s: "status pr7 = row_status row7" "status pr8 = row_status row8"
    by (simp_all add: row7_def row8_def pr7_def pr8_def new_state_def)
  have ok: "\<forall>q. map_of (states w_restart) q \<noteq> None
              \<longrightarrow> map_of [(''r'', cfg_buildbot)] q \<noteq> None"
    by (simp add: w_restart_def)
  have c: "map_of [(''r'', cfg_buildbot)] ''r'' = Some cfg_buildbot" by simp
  have k: "row_repo row7 = ''r''" "row_num row7 = 7" "row_merge_sha row7 = Some ''mmmm7777''"
    "row_repo row8 = ''r''" "row_num row8 = 8" "row_merge_sha row8 = None"
    by (simp_all add: row7_def row8_def)
  have t: "travis_token cfg_buildbot = None" "builders cfg_buildbot = [''linux'']"
    by (simp_all add: cfg_buildbot_def)
  from recover_pending[where w = w_restart and row = row8 and st = pr8
      and repo_cfgs = "[(''r'', cfg_buildbot)]" and cfg = cfg_buildbot, unfolded k,
      OF d m(2) p(2) l(2) s(2) ok c]
  have 8: "\<exists>w'. recover [(''r'', cfg_buildbot)] w_restart = (Returned (), w')
         \<and> lookup_state ''r'' 8 w' = Some (pr8\<lparr>status := ''''\<rparr>)"
    by auto
  from recover_pending[where w = w_restart and row = row7 and st = pr7
      and repo_cfgs = "[(''r'', cfg_buildbot)]" and cfg = cfg_buildbot, unfolded k t,
      OF d m(1) p(1) l(1) s(1) ok c]
  have 7: "\<exists>w' st'. recover [(''r'', cfg_buildbot)] w_restart = (Returned (), w')
         \<and> lookup_state ''r'' 7 w' = Some st' \<and> row7 \<in> set (db w')
         \<and> status st' = ''pending'' \<and> merge_sha st' = ''mmmm7777''
         \<and> map_of (build_res st') ''linux'' = Some None
         \<and> map_of (build_res st') ''travis'' = None"
    by auto
  from d m p l s c 8 7 show ?thesis by blast
qed

end
